theory Spec2Isabelle
  imports Main
begin

section \<open>Time values\<close>

text \<open>
  A \<^verbatim>\<open>datetime.datetime\<close> is a naive local time, counted in microseconds from the
  epoch; a \<^verbatim>\<open>datetime.timedelta\<close> is a signed number of microseconds, which is how
  Python normalises it (days, seconds in 0..86399, microseconds in 0..999999).
\<close>

type_synonym datetime = int
type_synonym timedelta = int

definition td_hours :: "int \<Rightarrow> timedelta" where
  "td_hours h = h * 3600000000"

definition td_minutes :: "int \<Rightarrow> timedelta" where
  "td_minutes m = m * 60000000"

definition td_seconds :: "timedelta \<Rightarrow> int" where
  \<comment> \<open>the \<^verbatim>\<open>seconds\<close> attribute: the seconds left once whole days are taken out\<close>
  "td_seconds d = (d div 1000000) mod 86400"

definition dt_hour :: "datetime \<Rightarrow> int" where
  \<comment> \<open>\<^verbatim>\<open>current_time.time().hour\<close>\<close>
  "dt_hour t = (t div 3600000000) mod 24"

record time_of_day =
  t_hour :: int
  t_minute :: int

section \<open>scheduler.py\<close>

subsection \<open>The Action as the scheduler sees it\<close>

text \<open>
  The scheduler probes its Action with \<^verbatim>\<open>getattr\<close> and \<^verbatim>\<open>hasattr\<close>. An attribute
  is absent, a plain value, or a method; the method carries what a call of it returns.
\<close>

datatype attr = Absent | Plain bool | Method bool

fun getattr_truthy :: "attr \<Rightarrow> bool \<Rightarrow> bool" where
  \<comment> \<open>truth value of \<^verbatim>\<open>getattr(obj, name, default)\<close>: a bound method is always true\<close>
  "getattr_truthy Absent dflt = dflt"
| "getattr_truthy (Plain b) dflt = b"
| "getattr_truthy (Method b) dflt = True"

datatype 'a outcome = Returns 'a | Raises

record action =
  is_enabled :: attr
  prevent_run :: attr
  amActive :: bool
  action_run :: "unit outcome"

record scheduler =
  last_run :: datetime
  cycle_time :: timedelta
  start_time :: "time_of_day option"
  prevent_cycle_run :: "bool outcome option"
  silent :: bool
  unpause_set :: bool
  stopper_set :: bool
  force :: bool

datatype event =
    Sleep nat
  | SetLastRun datetime
  | EvalShouldRun
  | LogWarning
  | LogDebug
  | LogError
  | ActionRun

definition pause :: "scheduler \<Rightarrow> scheduler" where
  "pause s = s\<lparr>unpause_set := False\<rparr>"

definition unpause :: "scheduler \<Rightarrow> scheduler" where
  "unpause s = s\<lparr>unpause_set := True\<rparr>"

definition stopit :: "scheduler \<Rightarrow> scheduler" where
  "stopit s = unpause (s\<lparr>stopper_set := True\<rparr>)"

fun set_paused_state :: "action \<Rightarrow> scheduler \<Rightarrow> scheduler outcome" where
  \<comment> \<open>\<^verbatim>\<open>hasattr\<close>, then the CALL \<^verbatim>\<open>self.action.is_enabled()\<close>; calling a plain bool raises\<close>
  "set_paused_state a s =
     (case is_enabled a of
        Absent \<Rightarrow> Returns s
      | Plain b \<Rightarrow> Raises
      | Method b \<Rightarrow>
          (let s1 = s\<lparr>silent := \<not> b\<rparr>
           in Returns (if silent s1 then pause s1 else unpause s1)))"

definition time_left :: "datetime \<Rightarrow> scheduler \<Rightarrow> timedelta" where
  "time_left now s = cycle_time s - (now - last_run s)"

definition force_run :: "action \<Rightarrow> scheduler \<Rightarrow> bool \<times> scheduler" where
  "force_run a s = (if \<not> amActive a then (True, s\<lparr>force := True\<rparr>) else (False, s))"

subsection \<open>One pass of the loop in \<^verbatim>\<open>Scheduler.run\<close>\<close>

definition cycle_hours :: "scheduler \<Rightarrow> int" where
  \<comment> \<open>\<^verbatim>\<open>self.cycle_time.seconds // 3600\<close>\<close>
  "cycle_hours s = td_seconds (cycle_time s) div 3600"

definition interval_check :: "datetime \<Rightarrow> scheduler \<Rightarrow> bool \<times> scheduler \<times> event list" where
  \<comment> \<open>lines 93-106: \<^verbatim>\<open>should_run = False\<close>, then the interval and the start time window\<close>
  "interval_check current_time s =
     (if current_time - last_run s \<ge> cycle_time s then
        (case start_time s of
           Some st \<Rightarrow>
             (let hour_diff = dt_hour current_time - t_hour st
              in if \<not> hour_diff < 0 \<and> hour_diff < cycle_hours s
                 then (True, s, [EvalShouldRun])
                 else (False, s\<lparr>last_run := current_time\<rparr>, [EvalShouldRun, SetLastRun current_time]))
         | None \<Rightarrow> (True, s, [EvalShouldRun]))
      else (False, s, [EvalShouldRun]))"

definition force_check :: "bool \<times> scheduler \<times> event list \<Rightarrow> bool \<times> scheduler \<times> event list" where
  \<comment> \<open>lines 108-109\<close>
  "force_check r = (case r of (should_run, s, ev) \<Rightarrow> (if force s then True else should_run, s, ev))"

datatype pass_end = Continues | Propagates

definition clear_force :: "scheduler \<Rightarrow> scheduler" where
  \<comment> \<open>the \<^verbatim>\<open>finally\<close> block\<close>
  "clear_force s = (if force s then s\<lparr>force := False\<rparr> else s)"

definition execute :: "action \<Rightarrow> datetime \<Rightarrow> scheduler \<Rightarrow> scheduler \<times> event list" where
  \<comment> \<open>lines 118-128: stamp, then run the Action inside its own \<^verbatim>\<open>try\<close>\<close>
  "execute a current_time s =
     (s\<lparr>last_run := current_time\<rparr>,
      [SetLastRun current_time] @ (if \<not> silent s then [LogDebug] else []) @ [ActionRun]
        @ (case action_run a of Returns u \<Rightarrow> [] | Raises \<Rightarrow> [LogError, LogError]))"

definition prevent_check ::
  "action \<Rightarrow> datetime \<Rightarrow> bool \<times> scheduler \<times> event list \<Rightarrow> bool outcome \<times> scheduler \<times> event list" where
  \<comment> \<open>lines 111-116; \<^verbatim>\<open>prevent_cycle_run()\<close> is called only when \<^verbatim>\<open>should_run\<close> holds and may raise\<close>
  "prevent_check a current_time r =
     (case r of
        (should_run, s, ev) \<Rightarrow>
          if should_run then
            (case (case prevent_cycle_run s of None \<Rightarrow> Returns False | Some q \<Rightarrow> q) of
               Raises \<Rightarrow> (Raises, s, ev)
             | Returns p \<Rightarrow>
                 if p \<or> getattr_truthy (prevent_run a) False
                 then (Returns False, s\<lparr>last_run := current_time\<rparr>, ev @ [LogWarning, SetLastRun current_time])
                 else (Returns True, s, ev))
          else (Returns False, s, ev))"

definition decide :: "action \<Rightarrow> datetime \<Rightarrow> scheduler \<Rightarrow> bool outcome \<times> scheduler \<times> event list" where
  \<comment> \<open>lines 93-116: the value of \<^verbatim>\<open>should_run\<close> that line 118 tests\<close>
  "decide a current_time s = prevent_check a current_time (force_check (interval_check current_time s))"

definition enabled_pass :: "action \<Rightarrow> datetime \<Rightarrow> scheduler \<Rightarrow> scheduler \<times> event list \<times> pass_end" where
  \<comment> \<open>lines 91-132, the \<^verbatim>\<open>try ... finally\<close>\<close>
  "enabled_pass a current_time s =
     (case decide a current_time s of
        (Raises, s1, ev) \<Rightarrow> (clear_force s1, ev, Propagates)
      | (Returns should_run, s1, ev) \<Rightarrow>
          if should_run then
            (case execute a current_time s1 of (s2, ev2) \<Rightarrow> (clear_force s2, ev @ ev2, Continues))
          else (clear_force s1, ev, Continues))"

definition loop_pass :: "action \<Rightarrow> datetime \<Rightarrow> scheduler \<Rightarrow> scheduler \<times> event list \<times> pass_end" where
  \<comment> \<open>lines 90-137: the body of the \<^verbatim>\<open>while\<close>\<close>
  "loop_pass a current_time s =
     (if getattr_truthy (is_enabled a) True then
        (case enabled_pass a current_time s of
           (s1, ev, Continues) \<Rightarrow> (s1, ev @ [Sleep 1], Continues)
         | (s1, ev, Propagates) \<Rightarrow> (s1, ev, Propagates))
      else (s, [Sleep 30, Sleep 1], Continues))"

subsection \<open>The loop over the ticks the thread lives through\<close>

record tick =
  tick_action :: action
  tick_now :: datetime

datatype run_end = Ticking | Blocked | Exited | Died

fun run_loop :: "tick list \<Rightarrow> scheduler \<Rightarrow> scheduler \<times> event list \<times> run_end" where
  "run_loop [] s = (s, [], Ticking)"
| "run_loop (t # ts) s =
     (if \<not> unpause_set s then (s, [], Blocked)
      else if stopper_set s then (s\<lparr>stopper_set := False, unpause_set := False\<rparr>, [], Exited)
      else (case loop_pass (tick_action t) (tick_now t) s of
              (s1, ev, Propagates) \<Rightarrow> (s1, ev, Died)
            | (s1, ev, Continues) \<Rightarrow>
                (case run_loop ts s1 of (s2, ev2, e) \<Rightarrow> (s2, ev @ ev2, e))))"

definition run :: "action \<Rightarrow> tick list \<Rightarrow> scheduler \<Rightarrow> scheduler \<times> event list \<times> run_end" where
  \<comment> \<open>\<^verbatim>\<open>set_paused_state\<close> with the Action as it is at start, then the loop\<close>
  "run a0 ts s =
     (case set_paused_state a0 s of
        Raises \<Rightarrow> (s, [], Died)
      | Returns s1 \<Rightarrow> run_loop ts s1)"

section \<open>tvcache.py\<close>

subsection \<open>Strings\<close>

datatype py_error =
    AuthException
  | MultipleShowObjectsException
  | InvalidNameException
  | InvalidShowException
  | AttributeError
  | IndexError
  | ValueError
  | KeyError
  | DatabaseError
  | OtherException

definition truthy_str :: "string option \<Rightarrow> bool" where
  \<comment> \<open>truth value of a value that is \<^verbatim>\<open>None\<close> or a string\<close>
  "truthy_str v = (case v of None \<Rightarrow> False | Some s \<Rightarrow> s \<noteq> [])"

definition digit_char :: "nat \<Rightarrow> char" where
  \<comment> \<open>the decimal digit \<open>d\<close>, for \<open>d\<close> below 10\<close>
  "digit_char d = ''0123456789'' ! d"

fun str_nat :: "nat \<Rightarrow> string" where
  "str_nat n = (if n < 10 then [digit_char n] else str_nat (n div 10) @ [digit_char (n mod 10)])"

declare str_nat.simps [simp del]

definition str_int :: "int \<Rightarrow> string" where
  \<comment> \<open>\<^verbatim>\<open>str(n)\<close> of an integer\<close>
  "str_int i = (if i < 0 then CHR ''-'' # str_nat (nat (- i)) else str_nat (nat i))"

fun join :: "string \<Rightarrow> string list \<Rightarrow> string" where
  "join sep [] = []"
| "join sep [x] = x"
| "join sep (x # y # ys) = x @ sep @ join sep (y # ys)"

fun split_chr :: "char \<Rightarrow> string \<Rightarrow> string list" where
  \<comment> \<open>\<^verbatim>\<open>s.split(sep)\<close> with a one character separator: always at least one piece\<close>
  "split_chr sep [] = [[]]"
| "split_chr sep (c # cs) =
     (if c = sep then [] # split_chr sep cs
      else (case split_chr sep cs of p # ps \<Rightarrow> (c # p) # ps | [] \<Rightarrow> [[c]]))"

definition item_at :: "'a list \<Rightarrow> nat \<Rightarrow> py_error + 'a" where
  \<comment> \<open>\<^verbatim>\<open>xs[i]\<close> for an index that is not negative\<close>
  "item_at xs i = (if i < length xs then Inr (xs ! i) else Inl IndexError)"

definition is_space :: "char \<Rightarrow> bool" where
  "is_space c = (c \<in> set [CHR '' '', CHR 0x09, CHR 0x0A, CHR 0x0B, CHR 0x0C, CHR 0x0D])"

definition is_digit :: "char \<Rightarrow> bool" where
  "is_digit c = ((48::nat) \<le> of_char c \<and> of_char c \<le> (57::nat))"

fun digits_value :: "string \<Rightarrow> nat \<Rightarrow> nat option" where
  \<comment> \<open>the digits after the first one; a single underscore may sit between two digits\<close>
  "digits_value [] acc = Some acc"
| "digits_value (c # cs) acc =
     (if is_digit c then digits_value cs (10 * acc + (of_char c - 48))
      else if c = CHR ''_'' then
        (case cs of
           d # ds \<Rightarrow> if is_digit d then digits_value ds (10 * acc + (of_char d - 48)) else None
         | [] \<Rightarrow> None)
      else None)"

definition py_int :: "string \<Rightarrow> py_error + int" where
  \<comment> \<open>\<^verbatim>\<open>int(s)\<close> of a string: blanks around, a sign, decimal digits\<close>
  "py_int s =
     (let t = rev (dropWhile is_space (rev (dropWhile is_space s)));
          (neg, u) = (case t of
                        c # cs \<Rightarrow> if c = CHR ''-'' then (True, cs)
                                  else if c = CHR ''+'' then (False, cs) else (False, t)
                      | [] \<Rightarrow> (False, t))
      in case u of
           [] \<Rightarrow> Inl ValueError
         | d # ds \<Rightarrow>
             if is_digit d then
               (case digits_value ds (of_char d - 48) of
                  None \<Rightarrow> Inl ValueError
                | Some n \<Rightarrow> Inr (if neg then - int n else int n))
             else Inl ValueError)"

fun is_prefix :: "string \<Rightarrow> string \<Rightarrow> bool" where
  "is_prefix [] ys = True"
| "is_prefix (x # xs) [] = False"
| "is_prefix (x # xs) (y # ys) = (x = y \<and> is_prefix xs ys)"

fun contains :: "string \<Rightarrow> string \<Rightarrow> bool" where
  \<comment> \<open>\<^verbatim>\<open>s LIKE '%sub%'\<close> for a pattern without letters or wildcards in \<^verbatim>\<open>sub\<close>\<close>
  "contains sub [] = (sub = [])"
| "contains sub (c # cs) = (if is_prefix sub (c # cs) then True else contains sub cs)"

definition translate_title :: "string \<Rightarrow> string" where
  \<comment> \<open>\<^verbatim>\<open>title.replace(" ", ".")\<close>\<close>
  "translate_title title = map (\<lambda>c. if c = CHR '' '' then CHR ''.'' else c) title"

fun translate_link_url :: "string \<Rightarrow> string" where
  \<comment> \<open>\<^verbatim>\<open>url.replace('&amp;', '&')\<close>\<close>
  "translate_link_url [] = []"
| "translate_link_url (c # cs) =
     (if is_prefix ''&amp;'' (c # cs) then CHR ''&'' # translate_link_url (drop 4 cs)
      else c # translate_link_url cs)"

definition plain_digit :: "char \<Rightarrow> bool" where
  \<comment> \<open>a character that \<^verbatim>\<open>str\<close> of a number can produce after its sign\<close>
  "plain_digit ch = (is_digit ch \<and> \<not> is_space ch \<and> ch \<noteq> CHR ''|'' \<and> ch \<noteq> CHR ''-'' \<and> ch \<noteq> CHR ''+'')"

definition digit_step :: "nat \<Rightarrow> char \<Rightarrow> nat" where
  \<comment> \<open>the value read so far, with one more digit\<close>
  "digit_step a ch = 10 * a + (of_char ch - 48)"

subsection \<open>Data\<close>

record show_obj =
  tvid :: int
  prodid :: int
  is_anime :: bool
  show_name :: string

record parse_result =
  series_name :: "string option"
  season_number :: "int option"
  episode_numbers :: "int list"
  pr_quality :: int
  pr_release_group :: "string option"
  pr_version :: "int option"
  pr_show_obj :: show_obj
  extra_info_no_name :: "string option"
  pr_is_anime :: bool

text \<open>A row of \<^verbatim>\<open>provider_cache\<close>, with the columns of the INSERT of \<^verbatim>\<open>add_cache_entry\<close>.\<close>

record cache_row =
  row_provider :: string
  row_name :: string
  row_season :: int
  row_episodes :: string
  row_indexerid :: int
  row_url :: string
  row_time :: int
  row_quality :: int
  row_release_group :: "string option"
  row_version :: "int option"
  row_indexer :: int

text \<open>A \<^verbatim>\<open>TVEpisode\<close> object: \<^verbatim>\<open>ep_oid\<close> is the identity of the object.\<close>

record episode =
  ep_oid :: nat
  ep_show_obj :: show_obj
  ep_season :: int
  ep_episode :: int
  wanted_quality :: "int list"

record search_result =
  sr_episodes :: "episode list"
  sr_url :: string
  sr_show_obj :: "show_obj option"
  sr_name :: string
  sr_quality :: int
  sr_release_group :: "string option"
  sr_version :: "int option"
  sr_content :: "string option"
  sr_is_repack :: bool
  sr_properlevel :: int

datatype db_write =
    DeleteProvider string
  | InsertRow cache_row
  | IgnoreRow cache_row
  | UpsertLastUpdate string int
  | UpsertLastSearch string int

text \<open>
  The file \<^verbatim>\<open>cache.db\<close>: the rows of \<^verbatim>\<open>provider_cache\<close>, the tables \<^verbatim>\<open>lastUpdate\<close> and
  \<^verbatim>\<open>lastSearch\<close> (provider, time) and, to count what was done, every write in order.
\<close>

record cache_db =
  provider_cache :: "cache_row list"
  lastUpdate :: "string \<rightharpoonup> int"
  lastSearch :: "string \<rightharpoonup> int"
  writes :: "db_write list"

record tvcache =
  providerID :: string
  update_iv :: int
  anime_only :: bool
  get_id :: "string option"

text \<open>
  What is outside \<^verbatim>\<open>tvcache.py\<close> during one \<^verbatim>\<open>update_cache\<close>: the provider, the clock,
  the name parser, the show helpers and the store driver. \<^verbatim>\<open>check_auth\<close> is the exception
  it raises, if any; \<^verbatim>\<open>insert_fault = Some k\<close> is a \<^verbatim>\<open>mass_action\<close> that raises once \<open>k\<close>
  statements ran; \<^verbatim>\<open>conflicts\<close> is the uniqueness constraint of \<^verbatim>\<open>provider_cache\<close>.
\<close>

record 'i ingest_env =
  check_auth :: "py_error option"
  now_should_update :: datetime
  timestamp_near :: int
  cache_data :: "'i list option"
  title_and_url :: "'i \<Rightarrow> string option \<times> string option"
  find_show_by_id :: "string \<Rightarrow> py_error + show_obj option"
  name_parser :: "show_obj option \<Rightarrow> string \<Rightarrow> py_error + parse_result"
  get_show :: "string \<Rightarrow> show_obj option"
  post_parser :: "show_obj option \<Rightarrow> string \<Rightarrow> string \<Rightarrow> py_error + parse_result"
  conflicts :: "cache_row \<Rightarrow> cache_row \<Rightarrow> bool"
  insert_fault :: "nat option"
  now_set_last_update :: datetime

text \<open>What is outside during one \<^verbatim>\<open>find_needed_episodes\<close>.\<close>

record match_env =
  select_fault :: bool
  find_show_by_ids :: "int \<Rightarrow> int \<Rightarrow> show_obj option"
  pass_wordlist_checks :: "string \<Rightarrow> show_obj \<Rightarrow> bool"
  want_episode :: "show_obj \<Rightarrow> int \<Rightarrow> int \<Rightarrow> int \<Rightarrow> bool \<Rightarrow> bool"
  get_episode :: "show_obj \<Rightarrow> int \<Rightarrow> int \<Rightarrow> episode"
  get_result :: "episode list \<Rightarrow> string \<Rightarrow> search_result option"
  np_parse :: "show_obj \<Rightarrow> string \<Rightarrow> py_error + parse_result"
  get_proper_level :: "string option \<Rightarrow> int option \<Rightarrow> bool \<Rightarrow> bool \<times> int"
  now_set_last_search :: datetime

subsection \<open>The two timestamps\<close>

definition fromtimestamp :: "int \<Rightarrow> datetime" where
  "fromtimestamp secs = secs * 1000000"

definition mktime :: "datetime \<Rightarrow> int" where
  \<comment> \<open>\<^verbatim>\<open>int(time.mktime(to_date.timetuple()))\<close>: the time tuple has no microseconds\<close>
  "mktime d = d div 1000000"

definition clamp_future :: "int \<Rightarrow> int option \<Rightarrow> int" where
  \<comment> \<open>lines 173-178 and 191-196: no row, or a time after \<^verbatim>\<open>timestamp_near()\<close>, reads as 0\<close>
  "clamp_future ts_near sql_result =
     (case sql_result of
        Some last_time \<Rightarrow> if last_time > ts_near then 0 else last_time
      | None \<Rightarrow> 0)"

definition last_update :: "int \<Rightarrow> tvcache \<Rightarrow> cache_db \<Rightarrow> datetime" where
  "last_update ts_near c db = fromtimestamp (clamp_future ts_near (lastUpdate db (providerID c)))"

definition last_search :: "int \<Rightarrow> tvcache \<Rightarrow> cache_db \<Rightarrow> datetime" where
  "last_search ts_near c db = fromtimestamp (clamp_future ts_near (lastSearch db (providerID c)))"

definition set_last_update :: "datetime option \<Rightarrow> datetime \<Rightarrow> tvcache \<Rightarrow> cache_db \<Rightarrow> cache_db" where
  \<comment> \<open>Modelled from the spec: the driver's \<^verbatim>\<open>upsert\<close> keeps one row for each provider\<close>
  "set_last_update to_date now c db =
     (let d = (case to_date of None \<Rightarrow> now | Some t \<Rightarrow> t)
      in db\<lparr>lastUpdate := (lastUpdate db)(providerID c \<mapsto> mktime d),
            writes := writes db @ [UpsertLastUpdate (providerID c) (mktime d)]\<rparr>)"

definition set_last_search :: "datetime option \<Rightarrow> datetime \<Rightarrow> tvcache \<Rightarrow> cache_db \<Rightarrow> cache_db" where
  \<comment> \<open>Modelled from the spec: the driver's \<^verbatim>\<open>upsert\<close> keeps one row for each provider\<close>
  "set_last_search to_date now c db =
     (let d = (case to_date of None \<Rightarrow> now | Some t \<Rightarrow> t)
      in db\<lparr>lastSearch := (lastSearch db)(providerID c \<mapsto> mktime d),
            writes := writes db @ [UpsertLastSearch (providerID c) (mktime d)]\<rparr>)"

definition should_update :: "datetime \<Rightarrow> int \<Rightarrow> tvcache \<Rightarrow> cache_db \<Rightarrow> bool" where
  "should_update now ts_near c db = (now - last_update ts_near c db \<ge> td_minutes (update_iv c))"

definition should_clear_cache :: "int \<Rightarrow> tvcache \<Rightarrow> cache_db \<Rightarrow> bool" where
  "should_clear_cache ts_near c db = (last_search ts_near c db \<ge> last_update ts_near c db)"

definition clear_cache :: "int \<Rightarrow> tvcache \<Rightarrow> cache_db \<Rightarrow> cache_db" where
  "clear_cache ts_near c db =
     (if should_clear_cache ts_near c db then
        db\<lparr>provider_cache := filter (\<lambda>r. row_provider r \<noteq> providerID c) (provider_cache db),
           writes := writes db @ [DeleteProvider (providerID c)]\<rparr>
      else db)"

subsection \<open>Ingestion: \<^verbatim>\<open>add_cache_entry\<close>, \<^verbatim>\<open>parse_item\<close>, \<^verbatim>\<open>update_cache\<close>\<close>

text \<open>
  Lines 264-292. The result is \<^verbatim>\<open>Inl\<close> for an exception that nothing catches,
  \<^verbatim>\<open>Inr None\<close> for a bare \<^verbatim>\<open>return\<close>, \<^verbatim>\<open>Inr (Some p)\<close> for the parse result that goes
  on. A parser hands back a \<^verbatim>\<open>ParseResult\<close> object or raises, so \<^verbatim>\<open>not parse_result\<close>
  holds for the argument \<^verbatim>\<open>None\<close> only. \<^verbatim>\<open>TVCache\<close> itself has no \<^verbatim>\<open>get_id\<close>: where a
  subclass gives none, \<^verbatim>\<open>self.get_id()\<close> raises inside the \<^verbatim>\<open>try\<close> and is caught there.
\<close>

definition resolve_parse_result ::
  "'i ingest_env \<Rightarrow> tvcache \<Rightarrow> string \<Rightarrow> parse_result option \<Rightarrow> string option
     \<Rightarrow> py_error + parse_result option" where
  "resolve_parse_result env c nm parse_res tvid_prodid =
     (case parse_res of
        Some p \<Rightarrow> Inr (Some p)
      | None \<Rightarrow>
          (case (if truthy_str tvid_prodid
                 then (case tvid_prodid of Some tp \<Rightarrow> find_show_by_id env tp | None \<Rightarrow> Inr None)
                 else Inr None) of
             Inl e \<Rightarrow> if e = MultipleShowObjectsException then Inr None else Inl e
           | Inr show \<Rightarrow>
               (case name_parser env show nm of
                  Inl e \<Rightarrow> if e = InvalidNameException \<or> e = InvalidShowException then Inr None else Inl e
                | Inr p \<Rightarrow>
                    if \<not> truthy_str (series_name p) then Inr None
                    else if show = None \<and> is_anime (pr_show_obj p) then
                      (let t_show_obj = get_show env (show_name (pr_show_obj p))
                       in case get_id c of
                            None \<Rightarrow> Inr None
                          | Some gid \<Rightarrow>
                              (case post_parser env t_show_obj nm gid of
                                 Inl e \<Rightarrow> Inr None
                               | Inr p2 \<Rightarrow> Inr (Some p2)))
                    else Inr (Some p))))"

definition episode_text :: "int list \<Rightarrow> string" where
  \<comment> \<open>\<^verbatim>\<open>'|%s|' % '|'.join(map(str, episode_numbers))\<close>\<close>
  "episode_text eps = ''|'' @ join ''|'' (map str_int eps) @ ''|''"

definition cache_entry :: "int \<Rightarrow> tvcache \<Rightarrow> string \<Rightarrow> string \<Rightarrow> parse_result \<Rightarrow> cache_row option" where
  \<comment> \<open>lines 294-326: the values of the INSERT, or nothing\<close>
  "cache_entry cur_timestamp c nm u p =
     (let season_num = (case season_number p of
                          Some n \<Rightarrow> if n \<noteq> 0 then n else 1
                        | None \<Rightarrow> 1);
          episode_nums = episode_numbers p
      in if season_num \<noteq> 0 \<and> episode_nums \<noteq> [] then
           Some \<lparr>row_provider = providerID c, row_name = nm, row_season = season_num,
                 row_episodes = episode_text episode_nums,
                 row_indexerid = prodid (pr_show_obj p),
                 row_url = u, row_time = cur_timestamp, row_quality = pr_quality p,
                 row_release_group = pr_release_group p, row_version = pr_version p,
                 row_indexer = tvid (pr_show_obj p)\<rparr>
         else None)"

definition add_cache_entry ::
  "'i ingest_env \<Rightarrow> tvcache \<Rightarrow> string \<Rightarrow> string \<Rightarrow> parse_result option \<Rightarrow> string option
     \<Rightarrow> py_error + cache_row option" where
  "add_cache_entry env c nm u parse_res tvid_prodid =
     (case resolve_parse_result env c nm parse_res tvid_prodid of
        Inl e \<Rightarrow> Inl e
      | Inr None \<Rightarrow> Inr None
      | Inr (Some p) \<Rightarrow> Inr (cache_entry (timestamp_near env) c nm u p))"

definition parse_item ::
  "'i ingest_env \<Rightarrow> tvcache \<Rightarrow> string option \<Rightarrow> string option \<Rightarrow> py_error + cache_row option" where
  "parse_item env c title u =
     (case (title, u) of
        (Some t, Some v) \<Rightarrow>
          if t \<noteq> [] \<and> v \<noteq> []
          then add_cache_entry env c (translate_title t) (translate_link_url v) None None
          else Inr None
      | _ \<Rightarrow> Inr None)"

fun parse_data :: "'i ingest_env \<Rightarrow> tvcache \<Rightarrow> 'i list \<Rightarrow> py_error + cache_row list" where
  \<comment> \<open>lines 104-109: the list \<^verbatim>\<open>cl\<close>, or the first exception that leaves the loop\<close>
  "parse_data env c [] = Inr []"
| "parse_data env c (item # items) =
     (case title_and_url env item of
        (title, u) \<Rightarrow>
          (case parse_item env c title u of
             Inl e \<Rightarrow> Inl e
           | Inr ci \<Rightarrow>
               (case parse_data env c items of
                  Inl e \<Rightarrow> Inl e
                | Inr cl \<Rightarrow> Inr (case ci of None \<Rightarrow> cl | Some r \<Rightarrow> r # cl))))"

definition insert_or_ignore :: "(cache_row \<Rightarrow> cache_row \<Rightarrow> bool) \<Rightarrow> cache_row \<Rightarrow> cache_db \<Rightarrow> cache_db" where
  \<comment> \<open>Modelled from the spec: \<^verbatim>\<open>INSERT OR IGNORE\<close> adds the row unless a stored row conflicts with it\<close>
  "insert_or_ignore conf r db =
     (if list_ex (conf r) (provider_cache db)
      then db\<lparr>writes := writes db @ [IgnoreRow r]\<rparr>
      else db\<lparr>provider_cache := provider_cache db @ [r], writes := writes db @ [InsertRow r]\<rparr>)"

fun run_inserts :: "(cache_row \<Rightarrow> cache_row \<Rightarrow> bool) \<Rightarrow> cache_row list \<Rightarrow> cache_db \<Rightarrow> cache_db" where
  "run_inserts conf [] db = db"
| "run_inserts conf (r # rs) db = run_inserts conf rs (insert_or_ignore conf r db)"

definition mass_action_insert ::
  "(cache_row \<Rightarrow> cache_row \<Rightarrow> bool) \<Rightarrow> nat option \<Rightarrow> cache_row list \<Rightarrow> cache_db
     \<Rightarrow> py_error option \<times> cache_db" where
  \<comment> \<open>Modelled from the spec: the driver's batch of statements; a fault after \<open>k\<close> of them raises\<close>
  "mass_action_insert conf fault cl db =
     (case fault of
        None \<Rightarrow> (None, run_inserts conf cl db)
      | Some k \<Rightarrow> (Some DatabaseError, run_inserts conf (take k cl) db))"

datatype update_return = ReturnsEmptyList | ReturnsNone

definition update_cache ::
  "'i ingest_env \<Rightarrow> tvcache \<Rightarrow> cache_db \<Rightarrow> (py_error + update_return) \<times> cache_db" where
  "update_cache env c db =
     (case check_auth env of
        Some e \<Rightarrow> if e = AuthException then (Inr ReturnsEmptyList, db) else (Inl e, db)
      | None \<Rightarrow>
          if should_update (now_should_update env) (timestamp_near env) c db then
            (let data = cache_data env;
                 items = (case data of None \<Rightarrow> [] | Some xs \<Rightarrow> xs);
                 db1 = (if items \<noteq> [] then clear_cache (timestamp_near env) c db else db)
             in case parse_data env c items of
                  Inl e \<Rightarrow> (Inl e, db1)
                | Inr cl \<Rightarrow>
                    (let db2 = (if 0 < length cl
                                then snd (mass_action_insert (conflicts env) (insert_fault env) cl db1)
                                else db1)
                     in (Inr ReturnsNone, set_last_update None (now_set_last_update env) c db2)))
          else (Inr ReturnsNone, db))"

subsection \<open>Matching: \<^verbatim>\<open>find_needed_episodes\<close>, \<^verbatim>\<open>search_cache\<close>\<close>

type_synonym needed = "(episode \<times> search_result list) list"

fun dict_add :: "needed \<Rightarrow> episode \<Rightarrow> search_result \<Rightarrow> needed" where
  \<comment> \<open>lines 461-464: a new key with \<^verbatim>\<open>[result]\<close>, or \<^verbatim>\<open>append\<close> under the key that is there\<close>
  "dict_add [] k v = [(k, [v])]"
| "dict_add ((k', vs) # kvs) k v =
     (if k' = k then (k', vs @ [v]) # kvs else (k', vs) # dict_add kvs k v)"

fun dict_get :: "needed \<Rightarrow> episode \<Rightarrow> py_error + search_result list" where
  \<comment> \<open>\<^verbatim>\<open>needed_eps[episode]\<close>\<close>
  "dict_get [] k = Inl KeyError"
| "dict_get ((k', vs) # kvs) k = (if k' = k then Inr vs else dict_get kvs k)"

definition select_needed :: "tvcache \<Rightarrow> episode \<Rightarrow> cache_db \<Rightarrow> cache_row list" where
  \<comment> \<open>lines 375-384: the SELECT bound to one episode object\<close>
  "select_needed c ep_obj db =
     filter (\<lambda>r. row_provider r = providerID c
                \<and> row_indexer r = tvid (ep_show_obj ep_obj)
                \<and> row_indexerid r = prodid (ep_show_obj ep_obj)
                \<and> row_season r = ep_season ep_obj
                \<and> contains (''|'' @ str_int (ep_episode ep_obj) @ ''|'') (row_episodes r)
                \<and> row_quality r \<in> set (wanted_quality ep_obj))
       (provider_cache db)"

definition first_episode :: "cache_row \<Rightarrow> py_error + string" where
  \<comment> \<open>line 415: \<^verbatim>\<open>cur_result['episodes'].split('|')[1]\<close>\<close>
  "first_episode cur_result = item_at (split_chr CHR ''|'' (row_episodes cur_result)) 1"

definition process_row ::
  "match_env \<Rightarrow> tvcache \<Rightarrow> bool \<Rightarrow> cache_row \<Rightarrow> py_error + (episode \<times> search_result) option" where
  \<comment> \<open>lines 396-458, one turn of the loop: an exception, \<^verbatim>\<open>continue\<close>, or the key and the result\<close>
  "process_row env c manual_search cur_result =
     (case find_show_by_ids env (row_indexer cur_result) (row_indexerid cur_result) of
        None \<Rightarrow> Inr None
      | Some show \<Rightarrow>
          if \<not> pass_wordlist_checks env (row_name cur_result) show then Inr None
          else if anime_only c \<and> \<not> is_anime show then Inr None
          else if row_season cur_result = - 1 then Inr None
          else
            (case first_episode cur_result of
               Inl e \<Rightarrow> Inl e
             | Inr tok \<Rightarrow>
                 if tok = [] then Inr None
                 else
                   (case py_int tok of
                      Inl e \<Rightarrow> Inl e
                    | Inr ep_num \<Rightarrow>
                        if \<not> want_episode env show (row_season cur_result) ep_num
                                (row_quality cur_result) manual_search
                        then Inr None
                        else
                          (let ep_obj = get_episode env show (row_season cur_result) ep_num
                           in case get_result env [ep_obj] (row_url cur_result) of
                                None \<Rightarrow> Inr None
                              | Some result \<Rightarrow>
                                  (let (extra, ver, anime) =
                                         (case np_parse env show (row_name cur_result) of
                                            Inr parsed \<Rightarrow>
                                              (extra_info_no_name parsed, pr_version parsed, pr_is_anime parsed)
                                          | Inl e \<Rightarrow> (None, Some (- 1), False));
                                       (repack, level) = get_proper_level env extra ver anime
                                   in Inr (Some (ep_obj,
                                        result\<lparr>sr_show_obj := Some show,
                                               sr_name := row_name cur_result,
                                               sr_quality := row_quality cur_result,
                                               sr_release_group := row_release_group cur_result,
                                               sr_version := row_version cur_result,
                                               sr_content := None,
                                               sr_is_repack := repack,
                                               sr_properlevel := level\<rparr>)))))))"

fun match_rows ::
  "match_env \<Rightarrow> tvcache \<Rightarrow> bool \<Rightarrow> cache_row list \<Rightarrow> needed \<Rightarrow> py_error + needed" where
  "match_rows env c manual_search [] needed_eps = Inr needed_eps"
| "match_rows env c manual_search (cur_result # rest) needed_eps =
     (case process_row env c manual_search cur_result of
        Inl e \<Rightarrow> Inl e
      | Inr None \<Rightarrow> match_rows env c manual_search rest needed_eps
      | Inr (Some (ep_obj, result)) \<Rightarrow>
          match_rows env c manual_search rest (dict_add needed_eps ep_obj result))"

datatype ep_arg = One episode | Many "episode list"

definition ep_list :: "ep_arg \<Rightarrow> episode list" where
  \<comment> \<open>lines 371-372: one episode object becomes a list of one\<close>
  "ep_list ep_obj_list = (case ep_obj_list of One e \<Rightarrow> [e] | Many es \<Rightarrow> es)"

definition query_rows :: "tvcache \<Rightarrow> episode list \<Rightarrow> cache_db \<Rightarrow> cache_row list" where
  \<comment> \<open>lines 374-387: one SELECT for each episode object, the rows chained in that order\<close>
  "query_rows c eps db = concat (map (\<lambda>ep_obj. select_needed c ep_obj db) eps)"

definition find_needed_episodes ::
  "match_env \<Rightarrow> tvcache \<Rightarrow> ep_arg \<Rightarrow> bool \<Rightarrow> cache_db \<Rightarrow> (py_error + needed) \<times> cache_db" where
  "find_needed_episodes env c ep_obj_list manual_search db =
     (if select_fault env then (Inl DatabaseError, db)
      else
        (let sql_result = query_rows c (ep_list ep_obj_list) db
         in if sql_result = [] then
              (Inr [], set_last_search None (now_set_last_search env) c db)
            else
              (case match_rows env c manual_search sql_result [] of
                 Inl e \<Rightarrow> (Inl e, db)
               | Inr needed_eps \<Rightarrow>
                   (Inr needed_eps, set_last_search None (now_set_last_search env) c db))))"

definition search_cache ::
  "match_env \<Rightarrow> tvcache \<Rightarrow> episode \<Rightarrow> bool \<Rightarrow> cache_db
     \<Rightarrow> (py_error + search_result list) \<times> cache_db" where
  "search_cache env c ep manual_search db =
     (case find_needed_episodes env c (One ep) manual_search db of
        (Inl e, db1) \<Rightarrow> (Inl e, db1)
      | (Inr needed_eps, db1) \<Rightarrow>
          if 0 \<noteq> length needed_eps then (dict_get needed_eps ep, db1) else (Inr [], db1))"

subsection \<open>What a search returns, read off the rows\<close>

definition accepted ::
  "match_env \<Rightarrow> tvcache \<Rightarrow> bool \<Rightarrow> cache_row list \<Rightarrow> (episode \<times> search_result) list" where
  \<comment> \<open>the rows that reach lines 461-464, each with its key and its result, in order\<close>
  "accepted env c manual_search rows =
     concat (map (\<lambda>r. case process_row env c manual_search r of
                         Inr (Some kv) \<Rightarrow> [kv]
                       | _ \<Rightarrow> []) rows)"

definition results_for :: "needed \<Rightarrow> episode \<Rightarrow> search_result list" where
  \<comment> \<open>the results stored under a key, none if the key is missing\<close>
  "results_for needed_eps k = (case dict_get needed_eps k of Inr vs \<Rightarrow> vs | Inl e \<Rightarrow> [])"

section \<open>Concrete schedulers, caches and surroundings\<close>

text \<open>
  \<^verbatim>\<open>SubtitlesFinder\<close> of \<^verbatim>\<open>subtitles.py\<close> as an Action: \<^verbatim>\<open>is_enabled\<close> is a static method
  that returns the setting \<^verbatim>\<open>USE_SUBTITLES\<close>, there is no \<^verbatim>\<open>prevent_run\<close>.
\<close>

definition subtitles_finder :: "bool \<Rightarrow> action" where
  "subtitles_finder use_subtitles =
     \<lparr>is_enabled = Method use_subtitles, prevent_run = Absent, amActive = False,
      action_run = Returns ()\<rparr>"

definition crashing_action :: action where
  "crashing_action = \<lparr>is_enabled = Absent, prevent_run = Absent, amActive = False, action_run = Raises\<rparr>"

definition ten_minute_scheduler :: scheduler where
  \<comment> \<open>the defaults of the constructor at time 0, not paused\<close>
  "ten_minute_scheduler =
     \<lparr>last_run = 0 + td_minutes 0 - td_minutes 10, cycle_time = td_minutes 10, start_time = None,
      prevent_cycle_run = None, silent = True, unpause_set = True, stopper_set = False,
      force = False\<rparr>"

definition two_o_clock_scheduler :: scheduler where
  \<comment> \<open>start time 02:00, cycle time 4 hours, last run five hours before 01:00\<close>
  "two_o_clock_scheduler =
     \<lparr>last_run = td_hours 1 - td_hours 5, cycle_time = td_hours 4,
      start_time = Some \<lparr>t_hour = 2, t_minute = 0\<rparr>,
      prevent_cycle_run = None, silent = True, unpause_set = True, stopper_set = False,
      force = False\<rparr>"

definition the_show :: show_obj where
  "the_show = \<lparr>tvid = 1, prodid = 100, is_anime = False, show_name = ''Show Name''\<rparr>"

definition the_cache :: tvcache where
  "the_cache = \<lparr>providerID = ''prov'', update_iv = 10, anime_only = False, get_id = None\<rparr>"

definition episode_of :: "show_obj \<Rightarrow> int \<Rightarrow> int \<Rightarrow> episode" where
  \<comment> \<open>the episode objects of a show: one object for each season and episode number\<close>
  "episode_of sh se ep =
     \<lparr>ep_oid = nat ep, ep_show_obj = sh, ep_season = se, ep_episode = ep, wanted_quality = [4]\<rparr>"

definition row_2_3 :: cache_row where
  \<comment> \<open>a stored entry for season 1, episodes 2 and 3, quality 4\<close>
  "row_2_3 =
     \<lparr>row_provider = ''prov'', row_name = ''Show.Name.S01E02E03.720p'', row_season = 1,
      row_episodes = ''|2|3|'', row_indexerid = 100, row_url = ''u1'', row_time = 1000,
      row_quality = 4, row_release_group = None, row_version = None, row_indexer = 1\<rparr>"

definition db_2_3 :: cache_db where
  "db_2_3 =
     \<lparr>provider_cache = [row_2_3], lastUpdate = [''prov'' \<mapsto> 1000], lastSearch = Map.empty,
      writes = []\<rparr>"

definition blank_result :: "episode list \<Rightarrow> string \<Rightarrow> search_result" where
  "blank_result eps u =
     \<lparr>sr_episodes = eps, sr_url = u, sr_show_obj = None, sr_name = [], sr_quality = 0,
      sr_release_group = None, sr_version = None, sr_content = None, sr_is_repack = False,
      sr_properlevel = 0\<rparr>"

definition plain_match_env :: match_env where
  \<comment> \<open>one known show, every title passes, quality 4 is wanted, the second parse fails\<close>
  "plain_match_env =
     \<lparr>select_fault = False,
      find_show_by_ids = (\<lambda>i d. if i = 1 \<and> d = 100 then Some the_show else None),
      pass_wordlist_checks = (\<lambda>n sh. True),
      want_episode = (\<lambda>sh se ep q manual. q = 4),
      get_episode = episode_of,
      get_result = (\<lambda>eps u. Some (blank_result eps u)),
      np_parse = (\<lambda>sh n. Inl InvalidNameException),
      get_proper_level = (\<lambda>extra ver anime. (False, 0)),
      now_set_last_search = 5000000000\<rparr>"

definition found_2_3 :: search_result where
  \<comment> \<open>what \<^verbatim>\<open>plain_match_env\<close> makes of \<^verbatim>\<open>row_2_3\<close>\<close>
  "found_2_3 =
     \<lparr>sr_episodes = [episode_of the_show 1 2], sr_url = ''u1'', sr_show_obj = Some the_show,
      sr_name = ''Show.Name.S01E02E03.720p'', sr_quality = 4, sr_release_group = None,
      sr_version = None, sr_content = None, sr_is_repack = False, sr_properlevel = 0\<rparr>"

definition parsed_s01e02 :: parse_result where
  "parsed_s01e02 =
     \<lparr>series_name = Some ''Show Name'', season_number = Some 1, episode_numbers = [2],
      pr_quality = 4, pr_release_group = None, pr_version = None, pr_show_obj = the_show,
      extra_info_no_name = None, pr_is_anime = False\<rparr>"

definition parsed_no_season :: parse_result where
  \<comment> \<open>a parse that found episode 5 and no season\<close>
  "parsed_no_season = parsed_s01e02\<lparr>season_number := None, episode_numbers := [5]\<rparr>"

definition feed_env :: "py_error option \<Rightarrow> (string \<times> string) list option \<Rightarrow> nat option
    \<Rightarrow> (string \<times> string) ingest_env" where
  \<comment> \<open>a feed of (title, url) pairs; the parser knows one title and rejects the rest\<close>
  "feed_env auth data fault =
     \<lparr>check_auth = auth, now_should_update = 9000000000, timestamp_near = 9000,
      cache_data = data,
      title_and_url = (\<lambda>item. (Some (fst item), Some (snd item))),
      find_show_by_id = (\<lambda>tp. Inr None),
      name_parser = (\<lambda>sh n. if n = ''Show.Name.S01E02.720p'' then Inr parsed_s01e02
                             else if n = ''Show.Name.E05'' then Inr parsed_no_season
                             else Inl InvalidNameException),
      get_show = (\<lambda>n. None),
      post_parser = (\<lambda>sh n g. Inl InvalidNameException),
      conflicts = (\<lambda>r r'. row_url r = row_url r'),
      insert_fault = fault,
      now_set_last_update = 9001000000\<rparr>"

section \<open>The scheduler loop\<close>

lemma disabled_probe_sleeps:
  "\<not> getattr_truthy (is_enabled a) True \<Longrightarrow> loop_pass a now s = (s, [Sleep 30, Sleep 1], Continues)"
  by (simp add: loop_pass_def)

lemma method_probe_truthy: "getattr_truthy (Method b) True"
  by simp

lemma cycle_hours_whole:
  assumes "0 \<le> cycle_time s" and "cycle_time s < td_hours 24"
  shows "cycle_hours s = cycle_time s div 3600000000"
proof -
  have "cycle_time s div 1000000 < 86400"
    using assms(2) by (simp add: td_hours_def)
  moreover have "0 \<le> cycle_time s div 1000000"
    using assms(1) by simp
  ultimately have "(cycle_time s div 1000000) mod 86400 = cycle_time s div 1000000"
    by simp
  then have "cycle_hours s = cycle_time s div 1000000 div 3600"
    by (simp add: cycle_hours_def td_seconds_def)
  also have "\<dots> = cycle_time s div (1000000 * 3600)"
    by (simp add: div_mult2_eq)
  finally show ?thesis by simp
qed

lemma decide_true_state:
  assumes "decide a t s = (Returns True, s1, ev)"
  shows "ActionRun \<notin> set ev \<and> silent s1 = silent s"
  using assms
  by (auto simp: decide_def prevent_check_def force_check_def interval_check_def Let_def
      split: if_splits option.splits outcome.splits prod.splits)

lemma execute_shape:
  "\<exists>post. execute a t s = (s\<lparr>last_run := t\<rparr>, SetLastRun t # post) \<and> ActionRun \<in> set post"
  by (cases "action_run a") (auto simp: execute_def)

lemma last_run_clear_force: "last_run (clear_force s) = last_run s"
  by (simp add: clear_force_def)

text \<open>
  C4. The claim: a pass in which the Action reports disabled sleeps 30 and skips the decision
  logic. The loop tests \<^verbatim>\<open>getattr(self.action, 'is_enabled', True)\<close> and never calls the
  method, so for \<^verbatim>\<open>SubtitlesFinder\<close> with \<^verbatim>\<open>is_enabled()\<close> returning false the pass at time 0
  of a scheduler whose interval has elapsed evaluates \<^verbatim>\<open>should_run\<close>, moves \<^verbatim>\<open>last_run\<close>
  and runs the Action, with no sleep of 30. A thread started while the Action was enabled
  makes that pass once the Action reports disabled.
\<close>

theorem disabled_action_still_decides:
  "is_enabled (subtitles_finder False) = Method False
   \<and> loop_pass (subtitles_finder False) 0 ten_minute_scheduler
       = (ten_minute_scheduler\<lparr>last_run := 0\<rparr>,
          [EvalShouldRun, SetLastRun 0, ActionRun, Sleep 1], Continues)
   \<and> last_run ten_minute_scheduler \<noteq> 0
   \<and> run (subtitles_finder True) [\<lparr>tick_action = subtitles_finder False, tick_now = 0\<rparr>]
         ten_minute_scheduler
       = (ten_minute_scheduler\<lparr>silent := False, last_run := 0\<rparr>,
          [EvalShouldRun, SetLastRun 0, LogDebug, ActionRun, Sleep 1], Ticking)"
  by (simp add: run_def loop_pass_def enabled_pass_def decide_def prevent_check_def force_check_def
      interval_check_def execute_def clear_force_def subtitles_finder_def ten_minute_scheduler_def
      td_minutes_def unpause_def pause_def)

text \<open>
  C5, as it is written, fails when the one-shot force flag is set: with start time 02:00,
  cycle time 4 hours, the interval elapsed and the clock at 01:00 (hour difference -1),
  a forced pass runs the Action.
\<close>

theorem forced_tick_runs_outside_window:
  "td_hours 1 - last_run (two_o_clock_scheduler\<lparr>force := True\<rparr>)
       \<ge> cycle_time (two_o_clock_scheduler\<lparr>force := True\<rparr>)
   \<and> start_time (two_o_clock_scheduler\<lparr>force := True\<rparr>) = Some \<lparr>t_hour = 2, t_minute = 0\<rparr>
   \<and> dt_hour (td_hours 1) - t_hour \<lparr>t_hour = 2, t_minute = 0\<rparr> = - 1
   \<and> ActionRun \<in> set (fst (snd (loop_pass (subtitles_finder True) (td_hours 1)
                                   (two_o_clock_scheduler\<lparr>force := True\<rparr>))))"
  by (simp add: loop_pass_def enabled_pass_def decide_def prevent_check_def force_check_def
      interval_check_def execute_def clear_force_def subtitles_finder_def two_o_clock_scheduler_def
      td_hours_def dt_hour_def cycle_hours_def td_seconds_def)

text \<open>
  C5, amended. In a pass that reaches the decision logic with the force flag not set, the
  interval elapsed and a start time configured: the Action runs only if the hour difference
  \<^verbatim>\<open>now.hour - start_time.hour\<close> is at least 0 and below \<^verbatim>\<open>cycle_time.seconds // 3600\<close>;
  outside that window the pass does not run the Action, sets \<^verbatim>\<open>last_run\<close> to the current
  time and goes on to the next tick.
\<close>

theorem start_time_window:
  assumes en: "getattr_truthy (is_enabled a) True"
    and el: "current_time - last_run s \<ge> cycle_time s"
    and st: "start_time s = Some st"
    and nf: "\<not> force s"
    and lp: "loop_pass a current_time s = (s', ev, e)"
  shows "(ActionRun \<in> set ev \<longrightarrow>
            0 \<le> dt_hour current_time - t_hour st \<and> dt_hour current_time - t_hour st < cycle_hours s)
       \<and> (\<not> (0 \<le> dt_hour current_time - t_hour st \<and> dt_hour current_time - t_hour st < cycle_hours s) \<longrightarrow>
            ActionRun \<notin> set ev \<and> last_run s' = current_time \<and> e = Continues)"
proof (cases "0 \<le> dt_hour current_time - t_hour st \<and> dt_hour current_time - t_hour st < cycle_hours s")
  case True
  then show ?thesis by simp
next
  case False
  then have ic: "interval_check current_time s
      = (False, s\<lparr>last_run := current_time\<rparr>, [EvalShouldRun, SetLastRun current_time])"
    using el st by (auto simp: interval_check_def Let_def)
  have "loop_pass a current_time s
      = (s\<lparr>last_run := current_time\<rparr>, [EvalShouldRun, SetLastRun current_time, Sleep 1], Continues)"
    using en nf by (simp add: loop_pass_def enabled_pass_def decide_def prevent_check_def
        force_check_def ic clear_force_def)
  with lp False show ?thesis by auto
qed

theorem start_time_window_witness:
  "getattr_truthy (is_enabled (subtitles_finder True)) True
   \<and> td_hours 1 - last_run two_o_clock_scheduler \<ge> cycle_time two_o_clock_scheduler
   \<and> start_time two_o_clock_scheduler = Some \<lparr>t_hour = 2, t_minute = 0\<rparr>
   \<and> \<not> force two_o_clock_scheduler
   \<and> dt_hour (td_hours 1) - 2 = - 1
   \<and> loop_pass (subtitles_finder True) (td_hours 1) two_o_clock_scheduler
       = (two_o_clock_scheduler\<lparr>last_run := td_hours 1\<rparr>,
          [EvalShouldRun, SetLastRun (td_hours 1), Sleep 1], Continues)
   \<and> ActionRun \<notin> set [EvalShouldRun, SetLastRun (td_hours 1), Sleep 1]
   \<and> last_run (two_o_clock_scheduler\<lparr>last_run := td_hours 1\<rparr>) = td_hours 1"
proof -
  have lp: "loop_pass (subtitles_finder True) (td_hours 1) two_o_clock_scheduler
       = (two_o_clock_scheduler\<lparr>last_run := td_hours 1\<rparr>,
          [EvalShouldRun, SetLastRun (td_hours 1), Sleep 1], Continues)"
    by (simp add: loop_pass_def enabled_pass_def decide_def prevent_check_def force_check_def
      interval_check_def execute_def clear_force_def subtitles_finder_def two_o_clock_scheduler_def
      td_hours_def dt_hour_def cycle_hours_def td_seconds_def)
  have en: "getattr_truthy (is_enabled (subtitles_finder True)) True"
    by (simp add: subtitles_finder_def)
  have el: "td_hours 1 - last_run two_o_clock_scheduler \<ge> cycle_time two_o_clock_scheduler"
    by (simp add: two_o_clock_scheduler_def td_hours_def)
  have st: "start_time two_o_clock_scheduler = Some \<lparr>t_hour = 2, t_minute = 0\<rparr>"
    by (simp add: two_o_clock_scheduler_def)
  have nf: "\<not> force two_o_clock_scheduler"
    by (simp add: two_o_clock_scheduler_def)
  have hd: "dt_hour (td_hours 1) - 2 = - 1"
    by (simp add: td_hours_def dt_hour_def)
  from start_time_window [OF en el st nf lp] hd lp en el st nf
  show ?thesis by simp
qed

text \<open>
  C6. In every pass whose \<^verbatim>\<open>should_run\<close> is true at line 118, \<^verbatim>\<open>last_run\<close> is set to the
  current time before the Action is invoked; whether the Action returns or raises, the pass
  ends normally with \<^verbatim>\<open>last_run\<close> at the current time and the loop goes on with the ticks
  that follow.
\<close>

theorem action_error_is_contained:
  assumes up: "unpause_set s" and ns: "\<not> stopper_set s"
    and en: "getattr_truthy (is_enabled (tick_action t)) True"
    and sr: "fst (decide (tick_action t) (tick_now t) s) = Returns True"
  shows "\<exists>s' pre post.
           loop_pass (tick_action t) (tick_now t) s = (s', pre @ SetLastRun (tick_now t) # post, Continues)
         \<and> ActionRun \<notin> set pre \<and> ActionRun \<in> set post
         \<and> last_run s' = tick_now t
         \<and> run_loop (t # ts) s =
             (case run_loop ts s' of
                (s2, ev2, e) \<Rightarrow> (s2, (pre @ SetLastRun (tick_now t) # post) @ ev2, e))"
proof -
  obtain s1 ev where d: "decide (tick_action t) (tick_now t) s = (Returns True, s1, ev)"
    using sr by (cases "decide (tick_action t) (tick_now t) s") auto
  obtain post where ex: "execute (tick_action t) (tick_now t) s1
        = (s1\<lparr>last_run := tick_now t\<rparr>, SetLastRun (tick_now t) # post)"
    and ar: "ActionRun \<in> set post"
    using execute_shape by blast
  let ?s' = "clear_force (s1\<lparr>last_run := tick_now t\<rparr>)"
  have lp: "loop_pass (tick_action t) (tick_now t) s
      = (?s', ev @ SetLastRun (tick_now t) # (post @ [Sleep 1]), Continues)"
    using en by (simp add: loop_pass_def enabled_pass_def d ex)
  have rl: "run_loop (t # ts) s =
      (case run_loop ts ?s' of
         (s2, ev2, e) \<Rightarrow> (s2, (ev @ SetLastRun (tick_now t) # (post @ [Sleep 1])) @ ev2, e))"
    using up ns by (simp add: lp)
  have "ActionRun \<notin> set ev"
    using decide_true_state [OF d] by simp
  moreover have "ActionRun \<in> set (post @ [Sleep 1])"
    using ar by simp
  moreover have "last_run ?s' = tick_now t"
    by (simp add: last_run_clear_force)
  ultimately show ?thesis
    using lp rl by blast
qed

theorem action_error_is_contained_witness:
  "unpause_set ten_minute_scheduler \<and> \<not> stopper_set ten_minute_scheduler
   \<and> getattr_truthy (is_enabled (tick_action \<lparr>tick_action = crashing_action, tick_now = 0\<rparr>)) True
   \<and> fst (decide (tick_action \<lparr>tick_action = crashing_action, tick_now = 0\<rparr>)
             (tick_now \<lparr>tick_action = crashing_action, tick_now = 0\<rparr>) ten_minute_scheduler) = Returns True
   \<and> action_run crashing_action = Raises
   \<and> (\<exists>s' pre post.
         loop_pass crashing_action 0 ten_minute_scheduler = (s', pre @ SetLastRun 0 # post, Continues)
       \<and> ActionRun \<notin> set pre \<and> ActionRun \<in> set post \<and> last_run s' = 0
       \<and> run_loop [\<lparr>tick_action = crashing_action, tick_now = 0\<rparr>] ten_minute_scheduler
            = (s', pre @ SetLastRun 0 # post, Ticking))"
proof -
  let ?t = "\<lparr>tick_action = crashing_action, tick_now = 0\<rparr>"
  have up: "unpause_set ten_minute_scheduler" and ns: "\<not> stopper_set ten_minute_scheduler"
    by (simp_all add: ten_minute_scheduler_def)
  have en: "getattr_truthy (is_enabled (tick_action ?t)) True"
    by (simp add: crashing_action_def)
  have sr: "fst (decide (tick_action ?t) (tick_now ?t) ten_minute_scheduler) = Returns True"
    by (simp add: decide_def prevent_check_def force_check_def interval_check_def
        crashing_action_def ten_minute_scheduler_def td_minutes_def)
  have cr: "action_run crashing_action = Raises"
    by (simp add: crashing_action_def)
  from action_error_is_contained [OF up ns en sr, of "[]"] up ns en sr cr
  show ?thesis by simp
qed

section \<open>Refreshing the cache\<close>

lemma insert_or_ignore_extends:
  "\<exists>new w. provider_cache (insert_or_ignore conf r db) = provider_cache db @ new
     \<and> writes (insert_or_ignore conf r db) = writes db @ w
     \<and> (\<forall>p. DeleteProvider p \<notin> set w)
     \<and> lastUpdate (insert_or_ignore conf r db) = lastUpdate db
     \<and> lastSearch (insert_or_ignore conf r db) = lastSearch db"
  by (simp add: insert_or_ignore_def)

lemma run_inserts_extends:
  "\<exists>new w. provider_cache (run_inserts conf cl db) = provider_cache db @ new
     \<and> writes (run_inserts conf cl db) = writes db @ w
     \<and> (\<forall>p. DeleteProvider p \<notin> set w)
     \<and> lastUpdate (run_inserts conf cl db) = lastUpdate db
     \<and> lastSearch (run_inserts conf cl db) = lastSearch db"
proof (induction cl arbitrary: db)
  case Nil
  then show ?case by simp
next
  case (Cons r rs)
  obtain n1 w1 where a: "provider_cache (insert_or_ignore conf r db) = provider_cache db @ n1"
      "writes (insert_or_ignore conf r db) = writes db @ w1" "\<forall>p. DeleteProvider p \<notin> set w1"
      "lastUpdate (insert_or_ignore conf r db) = lastUpdate db"
      "lastSearch (insert_or_ignore conf r db) = lastSearch db"
    using insert_or_ignore_extends by blast
  obtain n2 w2 where b: "provider_cache (run_inserts conf rs (insert_or_ignore conf r db))
        = provider_cache (insert_or_ignore conf r db) @ n2"
      "writes (run_inserts conf rs (insert_or_ignore conf r db))
        = writes (insert_or_ignore conf r db) @ w2" "\<forall>p. DeleteProvider p \<notin> set w2"
      "lastUpdate (run_inserts conf rs (insert_or_ignore conf r db)) = lastUpdate (insert_or_ignore conf r db)"
      "lastSearch (run_inserts conf rs (insert_or_ignore conf r db)) = lastSearch (insert_or_ignore conf r db)"
    using Cons.IH by blast
  have "provider_cache (run_inserts conf (r # rs) db) = provider_cache db @ (n1 @ n2)"
    using a b by simp
  moreover have "writes (run_inserts conf (r # rs) db) = writes db @ (w1 @ w2)"
    using a b by simp
  moreover have "\<forall>p. DeleteProvider p \<notin> set (w1 @ w2)"
    using a b by simp
  moreover have "lastUpdate (run_inserts conf (r # rs) db) = lastUpdate db"
    using a b by simp
  moreover have "lastSearch (run_inserts conf (r # rs) db) = lastSearch db"
    using a b by simp
  ultimately show ?case by blast
qed

lemma mass_action_insert_extends:
  "\<exists>new w. provider_cache (snd (mass_action_insert conf fault cl db)) = provider_cache db @ new
     \<and> writes (snd (mass_action_insert conf fault cl db)) = writes db @ w
     \<and> (\<forall>p. DeleteProvider p \<notin> set w)"
  using run_inserts_extends [of conf cl db] run_inserts_extends [of conf _ db]
  by (cases fault) (auto simp: mass_action_insert_def)

lemma set_last_update_stamp:
  "lastUpdate (set_last_update None now c db) (providerID c) = Some (mktime now)
   \<and> writes (set_last_update None now c db) = writes db @ [UpsertLastUpdate (providerID c) (mktime now)]
   \<and> provider_cache (set_last_update None now c db) = provider_cache db"
  by (simp add: set_last_update_def)

text \<open>
  C1. When \<^verbatim>\<open>check_auth()\<close> raises \<^verbatim>\<open>AuthException\<close>, \<^verbatim>\<open>update_cache\<close> returns the empty
  list and the store is what it was: no row deleted or inserted, \<^verbatim>\<open>lastUpdate\<close> not
  written.
\<close>

theorem auth_error_mutates_nothing:
  "check_auth env = Some AuthException \<Longrightarrow> update_cache env c db = (Inr ReturnsEmptyList, db)"
  by (simp add: update_cache_def)

theorem auth_error_mutates_nothing_witness:
  "check_auth (feed_env (Some AuthException) (Some [(''Show.Name.S01E02.720p'', ''u9'')]) None)
     = Some AuthException
   \<and> update_cache (feed_env (Some AuthException) (Some [(''Show.Name.S01E02.720p'', ''u9'')]) None)
       the_cache db_2_3 = (Inr ReturnsEmptyList, db_2_3)"
proof -
  have a: "check_auth (feed_env (Some AuthException) (Some [(''Show.Name.S01E02.720p'', ''u9'')]) None)
     = Some AuthException"
    by (simp add: feed_env_def)
  from auth_error_mutates_nothing [OF a] a show ?thesis by simp
qed

text \<open>
  C2. When authentication succeeds and \<^verbatim>\<open>should_update()\<close> holds, every
  \<^verbatim>\<open>update_cache\<close> that returns has set \<^verbatim>\<open>lastUpdate\<close> to the current time, as its last
  write. A fetch without items always returns, and so does every run in which no parser
  exception leaves the item loop, whether the batch insert raises or not: nothing here
  depends on \<^verbatim>\<open>insert_fault\<close>.
\<close>

theorem refresh_always_stamped:
  assumes auth: "check_auth env = None"
    and due: "should_update (now_should_update env) (timestamp_near env) c db"
  shows "(\<forall>r. fst (update_cache env c db) = Inr r \<longrightarrow>
            lastUpdate (snd (update_cache env c db)) (providerID c)
              = Some (mktime (now_set_last_update env))
          \<and> last (writes (snd (update_cache env c db)))
              = UpsertLastUpdate (providerID c) (mktime (now_set_last_update env)))
     \<and> (cache_data env = None \<or> cache_data env = Some [] \<longrightarrow>
          fst (update_cache env c db) = Inr ReturnsNone)
     \<and> (\<forall>cl. parse_data env c (case cache_data env of None \<Rightarrow> [] | Some xs \<Rightarrow> xs) = Inr cl \<longrightarrow>
          fst (update_cache env c db) = Inr ReturnsNone)"
proof -
  let ?items = "case cache_data env of None \<Rightarrow> [] | Some xs \<Rightarrow> xs"
  let ?res = "update_cache env c db"
  have parsed: "fst ?res = Inr ReturnsNone
        \<and> lastUpdate (snd ?res) (providerID c) = Some (mktime (now_set_last_update env))
        \<and> last (writes (snd ?res)) = UpsertLastUpdate (providerID c) (mktime (now_set_last_update env))"
    if "parse_data env c ?items = Inr cl" for cl
    using that auth due by (simp add: update_cache_def Let_def set_last_update_stamp)
  have raised: "fst ?res = Inl e" if "parse_data env c ?items = Inl e" for e
    using that auth due by (simp add: update_cache_def Let_def)
  have one: "\<forall>r. fst ?res = Inr r \<longrightarrow>
            lastUpdate (snd ?res) (providerID c) = Some (mktime (now_set_last_update env))
          \<and> last (writes (snd ?res)) = UpsertLastUpdate (providerID c) (mktime (now_set_last_update env))"
  proof (cases "parse_data env c ?items")
    case (Inl e)
    then show ?thesis using raised by simp
  next
    case (Inr cl)
    then show ?thesis using parsed by blast
  qed
  have two: "cache_data env = None \<or> cache_data env = Some [] \<longrightarrow> fst ?res = Inr ReturnsNone"
  proof
    assume "cache_data env = None \<or> cache_data env = Some []"
    then have "parse_data env c ?items = Inr []" by auto
    then show "fst ?res = Inr ReturnsNone" using parsed by blast
  qed
  have three: "\<forall>cl. parse_data env c ?items = Inr cl \<longrightarrow> fst ?res = Inr ReturnsNone"
    using parsed by blast
  from one two three show ?thesis by blast
qed

lemma feed_due:
  "should_update (now_should_update (feed_env a d f)) (timestamp_near (feed_env a d f)) the_cache db_2_3"
  by (simp add: should_update_def feed_env_def last_update_def clamp_future_def fromtimestamp_def
      the_cache_def db_2_3_def td_minutes_def)

lemma feed_one_parsed:
  "parse_data (feed_env a (Some [(''Show.Name.S01E02.720p'', ''u9'')]) f) the_cache
      [(''Show.Name.S01E02.720p'', ''u9'')]
    = Inr [\<lparr>row_provider = ''prov'', row_name = ''Show.Name.S01E02.720p'', row_season = 1,
            row_episodes = ''|2|'', row_indexerid = 100, row_url = ''u9'', row_time = 9000,
            row_quality = 4, row_release_group = None, row_version = None, row_indexer = 1\<rparr>]"
  by (simp add: feed_env_def parse_item_def add_cache_entry_def resolve_parse_result_def
      truthy_str_def cache_entry_def translate_title_def the_cache_def parsed_s01e02_def
      the_show_def episode_text_def str_int_def str_nat.simps digit_char_def)

theorem refresh_always_stamped_witness:
  "check_auth (feed_env None None None) = None
   \<and> should_update (now_should_update (feed_env None None None))
        (timestamp_near (feed_env None None None)) the_cache db_2_3
   \<and> cache_data (feed_env None None None) = None
   \<and> fst (update_cache (feed_env None None None) the_cache db_2_3) = Inr ReturnsNone
   \<and> lastUpdate (snd (update_cache (feed_env None None None) the_cache db_2_3)) ''prov'' = Some 9001
   \<and> check_auth (feed_env None (Some [(''Show.Name.S01E02.720p'', ''u9'')]) (Some 0)) = None
   \<and> should_update (now_should_update (feed_env None (Some [(''Show.Name.S01E02.720p'', ''u9'')]) (Some 0)))
        (timestamp_near (feed_env None (Some [(''Show.Name.S01E02.720p'', ''u9'')]) (Some 0)))
        the_cache db_2_3
   \<and> insert_fault (feed_env None (Some [(''Show.Name.S01E02.720p'', ''u9'')]) (Some 0)) = Some 0
   \<and> fst (update_cache (feed_env None (Some [(''Show.Name.S01E02.720p'', ''u9'')]) (Some 0))
            the_cache db_2_3) = Inr ReturnsNone
   \<and> lastUpdate (snd (update_cache (feed_env None (Some [(''Show.Name.S01E02.720p'', ''u9'')]) (Some 0))
                        the_cache db_2_3)) ''prov'' = Some 9001"
proof -
  let ?e1 = "feed_env None None None :: (string \<times> string) ingest_env"
  let ?e2 = "feed_env None (Some [(''Show.Name.S01E02.720p'', ''u9'')]) (Some 0)"
  have a1: "check_auth ?e1 = None" and a2: "check_auth ?e2 = None"
    by (simp_all add: feed_env_def)
  have p1: "parse_data ?e1 the_cache (case cache_data ?e1 of None \<Rightarrow> [] | Some xs \<Rightarrow> xs) = Inr []"
    by (simp add: feed_env_def)
  have c2: "cache_data ?e2 = Some [(''Show.Name.S01E02.720p'', ''u9'')]"
    by (simp add: feed_env_def)
  have p2: "parse_data ?e2 the_cache (case cache_data ?e2 of None \<Rightarrow> [] | Some xs \<Rightarrow> xs)
      = Inr [\<lparr>row_provider = ''prov'', row_name = ''Show.Name.S01E02.720p'', row_season = 1,
            row_episodes = ''|2|'', row_indexerid = 100, row_url = ''u9'', row_time = 9000,
            row_quality = 4, row_release_group = None, row_version = None, row_indexer = 1\<rparr>]"
    using feed_one_parsed [of None "Some 0"] by (simp add: c2)
  have f: "insert_fault ?e2 = Some 0" "cache_data ?e1 = None"
      "now_set_last_update ?e1 = 9001000000" "now_set_last_update ?e2 = 9001000000"
      "providerID the_cache = ''prov''"
    by (simp_all add: feed_env_def the_cache_def)
  from refresh_always_stamped [OF a1 feed_due] refresh_always_stamped [OF a2 feed_due] p1 p2
    a1 a2 feed_due [of None None None]
    feed_due [of None "Some [(''Show.Name.S01E02.720p'', ''u9'')]" "Some 0"] f
  show ?thesis by (simp add: mktime_def)
qed

lemma update_cache_keeps_rows:
  assumes nc: "\<not> should_clear_cache (timestamp_near env) c db"
  shows "\<exists>new w. provider_cache (snd (update_cache env c db)) = provider_cache db @ new
           \<and> writes (snd (update_cache env c db)) = writes db @ w
           \<and> (\<forall>p. DeleteProvider p \<notin> set w)"
proof -
  let ?items = "case cache_data env of None \<Rightarrow> [] | Some xs \<Rightarrow> xs"
  have cc: "clear_cache (timestamp_near env) c db = db"
    using nc by (simp add: clear_cache_def)
  have same: "\<exists>new w. provider_cache db = provider_cache db @ new \<and> writes db = writes db @ w
      \<and> (\<forall>p. DeleteProvider p \<notin> set w)"
    by simp
  show ?thesis
  proof (cases "check_auth env")
    case (Some e)
    then show ?thesis using same by (simp add: update_cache_def)
  next
    case None
    show ?thesis
    proof (cases "should_update (now_should_update env) (timestamp_near env) c db")
      case False
      then show ?thesis using None same by (simp add: update_cache_def)
    next
      case True
      show ?thesis
      proof (cases "parse_data env c ?items")
        case (Inl e)
        then show ?thesis using None True cc same by (simp add: update_cache_def Let_def)
      next
        case (Inr cl)
        let ?db2 = "if 0 < length cl
                    then snd (mass_action_insert (conflicts env) (insert_fault env) cl db) else db"
        obtain new w where e: "provider_cache ?db2 = provider_cache db @ new"
            "writes ?db2 = writes db @ w" "\<forall>p. DeleteProvider p \<notin> set w"
          using mass_action_insert_extends [of "conflicts env" "insert_fault env" cl db] same
          by (cases "0 < length cl") auto
        have u: "update_cache env c db
            = (Inr ReturnsNone, set_last_update None (now_set_last_update env) c ?db2)"
          using None True Inr cc by (simp add: update_cache_def Let_def)
        have "provider_cache (snd (update_cache env c db)) = provider_cache db @ new"
          using e by (simp add: u set_last_update_stamp)
        moreover have "writes (snd (update_cache env c db))
            = writes db @ (w @ [UpsertLastUpdate (providerID c) (mktime (now_set_last_update env))])"
          using e by (simp add: u set_last_update_stamp)
        moreover have "\<forall>p. DeleteProvider p
            \<notin> set (w @ [UpsertLastUpdate (providerID c) (mktime (now_set_last_update env))])"
          using e by simp
        ultimately show ?thesis by blast
      qed
    qed
  qed
qed

text \<open>
  C3. \<^verbatim>\<open>should_clear_cache()\<close> is true exactly when \<^verbatim>\<open>last_search\<close> is at least
  \<^verbatim>\<open>last_update\<close>, the two timestamps as the properties read them from \<^verbatim>\<open>lastSearch\<close>
  and \<^verbatim>\<open>lastUpdate\<close> (a missing row and a time in the future read as 0). An
  \<^verbatim>\<open>update_cache\<close> that finds it false keeps every stored row, whatever it fetches and
  inserts: the table afterwards is the old one with rows added at the end, and no DELETE
  is among the writes.
\<close>

theorem purge_gate:
  "(should_clear_cache ts_near c db \<longleftrightarrow> last_search ts_near c db \<ge> last_update ts_near c db)
   \<and> (should_clear_cache ts_near c db \<longleftrightarrow>
        clamp_future ts_near (lastSearch db (providerID c))
          \<ge> clamp_future ts_near (lastUpdate db (providerID c)))
   \<and> (\<not> should_clear_cache (timestamp_near env) c db \<longrightarrow>
        (\<exists>new w. provider_cache (snd (update_cache env c db)) = provider_cache db @ new
            \<and> writes (snd (update_cache env c db)) = writes db @ w
            \<and> (\<forall>p. DeleteProvider p \<notin> set w)))"
  using update_cache_keeps_rows [of env c db]
  by (simp add: should_clear_cache_def last_search_def last_update_def fromtimestamp_def)

theorem purge_gate_witness:
  "\<not> should_clear_cache (timestamp_near (feed_env None (Some [(''Show.Name.S01E02.720p'', ''u9'')]) None))
        the_cache db_2_3
   \<and> should_clear_cache 9000 the_cache (db_2_3\<lparr>lastSearch := [''prov'' \<mapsto> 2000]\<rparr>)
   \<and> provider_cache (snd (update_cache (feed_env None (Some [(''Show.Name.S01E02.720p'', ''u9'')]) None)
                             the_cache db_2_3))
       = provider_cache db_2_3 @
         [\<lparr>row_provider = ''prov'', row_name = ''Show.Name.S01E02.720p'', row_season = 1,
            row_episodes = ''|2|'', row_indexerid = 100, row_url = ''u9'', row_time = 9000,
            row_quality = 4, row_release_group = None, row_version = None, row_indexer = 1\<rparr>]"
proof -
  let ?e = "feed_env None (Some [(''Show.Name.S01E02.720p'', ''u9'')]) None"
  have nc: "\<not> should_clear_cache (timestamp_near ?e) the_cache db_2_3"
    by (simp add: should_clear_cache_def last_search_def last_update_def clamp_future_def
        fromtimestamp_def db_2_3_def the_cache_def feed_env_def)
  have yc: "should_clear_cache 9000 the_cache (db_2_3\<lparr>lastSearch := [''prov'' \<mapsto> 2000]\<rparr>)"
    by (simp add: should_clear_cache_def last_search_def last_update_def clamp_future_def
        fromtimestamp_def db_2_3_def the_cache_def)
  have a: "check_auth ?e = None" and cd: "cache_data ?e = Some [(''Show.Name.S01E02.720p'', ''u9'')]"
    and cf: "conflicts ?e = (\<lambda>r r'. row_url r = row_url r')" and fl: "insert_fault ?e = None"
    by (simp_all add: feed_env_def)
  have cc: "clear_cache (timestamp_near ?e) the_cache db_2_3 = db_2_3"
    using nc by (simp add: clear_cache_def)
  have rows: "provider_cache (snd (update_cache ?e the_cache db_2_3))
       = provider_cache db_2_3 @
         [\<lparr>row_provider = ''prov'', row_name = ''Show.Name.S01E02.720p'', row_season = 1,
            row_episodes = ''|2|'', row_indexerid = 100, row_url = ''u9'', row_time = 9000,
            row_quality = 4, row_release_group = None, row_version = None, row_indexer = 1\<rparr>]"
  proof -
    let ?r = "\<lparr>row_provider = ''prov'', row_name = ''Show.Name.S01E02.720p'', row_season = 1,
                 row_episodes = ''|2|'', row_indexerid = 100, row_url = ''u9'', row_time = 9000,
                 row_quality = 4, row_release_group = None, row_version = None, row_indexer = 1\<rparr>"
    have u: "update_cache ?e the_cache db_2_3
        = (Inr ReturnsNone, set_last_update None (now_set_last_update ?e) the_cache
             (run_inserts (\<lambda>r r'. row_url r = row_url r')
               [\<lparr>row_provider = ''prov'', row_name = ''Show.Name.S01E02.720p'', row_season = 1,
                 row_episodes = ''|2|'', row_indexerid = 100, row_url = ''u9'', row_time = 9000,
                 row_quality = 4, row_release_group = None, row_version = None, row_indexer = 1\<rparr>]
               db_2_3))"
      by (simp add: update_cache_def a cd cc feed_one_parsed feed_due cf fl mass_action_insert_def
          Let_def del: parse_data.simps)
    have "provider_cache (snd (update_cache ?e the_cache db_2_3))
        = provider_cache (run_inserts (\<lambda>r r'. row_url r = row_url r') [?r] db_2_3)"
      by (simp add: u set_last_update_stamp)
    also have "\<dots> = provider_cache db_2_3 @ [?r]"
      by (simp add: insert_or_ignore_def db_2_3_def row_2_3_def)
    finally show ?thesis .
  qed
  from purge_gate [where ts_near = 9000 and c = the_cache and db = db_2_3 and env = ?e]
    purge_gate [where ts_near = 9000 and c = the_cache
      and db = "db_2_3\<lparr>lastSearch := [''prov'' \<mapsto> 2000]\<rparr>" and env = ?e]
    nc yc rows
  show ?thesis by simp
qed

section \<open>What gets stored\<close>

lemma cache_entry_Some:
  assumes "cache_entry ts c nm u p = Some row"
  shows "episode_numbers p \<noteq> [] \<and> row_episodes row = episode_text (episode_numbers p)
     \<and> row_season row \<noteq> 0
     \<and> (season_number p = None \<longrightarrow> row_season row = 1)
     \<and> (\<forall>n. season_number p = Some n \<and> n \<noteq> 0 \<longrightarrow> row_season row = n)"
  using assms
  by (auto simp: cache_entry_def Let_def split: if_splits option.splits)

lemma add_cache_entry_Some:
  assumes "add_cache_entry env c nm u parse_res tvid_prodid = Inr (Some row)"
  shows "\<exists>p. resolve_parse_result env c nm parse_res tvid_prodid = Inr (Some p)
     \<and> cache_entry (timestamp_near env) c nm u p = Some row"
  using assms
  by (auto simp: add_cache_entry_def split: sum.splits option.splits)

lemma parse_item_Some:
  assumes "parse_item env c title u = Inr (Some row)"
  shows "\<exists>eps. eps \<noteq> [] \<and> row_episodes row = episode_text eps \<and> row_season row \<noteq> 0"
proof -
  from assms obtain nm v where "add_cache_entry env c nm v None None = Inr (Some row)"
    by (auto simp: parse_item_def split: option.splits if_splits)
  then obtain p where "cache_entry (timestamp_near env) c nm v p = Some row"
    using add_cache_entry_Some by blast
  from cache_entry_Some [OF this] show ?thesis by blast
qed

lemma parse_data_rows:
  "parse_data env c items = Inr cl \<Longrightarrow>
     \<forall>row \<in> set cl. \<exists>eps. eps \<noteq> [] \<and> row_episodes row = episode_text eps \<and> row_season row \<noteq> 0"
proof (induction items arbitrary: cl)
  case Nil
  then show ?case by simp
next
  case (Cons item items)
  obtain title u where tu: "title_and_url env item = (title, u)"
    by (cases "title_and_url env item")
  from Cons.prems tu obtain ci cl' where ci: "parse_item env c title u = Inr ci"
    and cl': "parse_data env c items = Inr cl'"
    and cl: "cl = (case ci of None \<Rightarrow> cl' | Some r \<Rightarrow> r # cl')"
    by (auto split: sum.splits)
  have rest: "\<forall>row \<in> set cl'. \<exists>eps. eps \<noteq> [] \<and> row_episodes row = episode_text eps \<and> row_season row \<noteq> 0"
    using Cons.IH [OF cl'] .
  show ?case
  proof (cases ci)
    case None
    with cl rest show ?thesis by simp
  next
    case (Some r)
    with ci have "\<exists>eps. eps \<noteq> [] \<and> row_episodes r = episode_text eps \<and> row_season r \<noteq> 0"
      using parse_item_Some by blast
    with cl Some rest show ?thesis by simp
  qed
qed

lemma no_season_entry:
  "add_cache_entry (feed_env None None None) the_cache ''Show.Name.E05'' ''u5'' None None
     = Inr (Some \<lparr>row_provider = ''prov'', row_name = ''Show.Name.E05'', row_season = 1,
                  row_episodes = ''|5|'', row_indexerid = 100, row_url = ''u5'', row_time = 9000,
                  row_quality = 4, row_release_group = None, row_version = None, row_indexer = 1\<rparr>)"
  by (simp add: feed_env_def add_cache_entry_def resolve_parse_result_def
      truthy_str_def cache_entry_def the_cache_def parsed_s01e02_def parsed_no_season_def
      the_show_def episode_text_def str_int_def str_nat.simps digit_char_def)

lemma no_season_resolved:
  "resolve_parse_result (feed_env None None None) the_cache ''Show.Name.E05'' None None
     = Inr (Some parsed_no_season)"
  by (simp add: feed_env_def resolve_parse_result_def truthy_str_def parsed_s01e02_def
      parsed_no_season_def the_show_def)

text \<open>
  C9, as it is written, fails for a parse that resolves episodes and no season: the code
  puts season 1 in place of the missing season number, so a title parsed as episode 5 with
  no season yields the INSERT of an entry for season 1, episodes \<^verbatim>\<open>|5|\<close>.
\<close>

theorem entry_without_season_is_stored:
  "season_number parsed_no_season = None
   \<and> resolve_parse_result (feed_env None None None) the_cache ''Show.Name.E05'' None None
       = Inr (Some parsed_no_season)
   \<and> parse_item (feed_env None None None) the_cache (Some ''Show.Name.E05'') (Some ''u5'')
       = Inr (Some \<lparr>row_provider = ''prov'', row_name = ''Show.Name.E05'', row_season = 1,
                    row_episodes = ''|5|'', row_indexerid = 100, row_url = ''u5'', row_time = 9000,
                    row_quality = 4, row_release_group = None, row_version = None, row_indexer = 1\<rparr>)"
  by (simp add: no_season_resolved parse_item_def translate_title_def no_season_entry)
    (simp add: parsed_no_season_def)

text \<open>
  C9, amended. \<^verbatim>\<open>add_cache_entry\<close> produces an entry only when the parse result has a
  non-empty list of episode numbers; the season of the entry is the season number of the
  parse result, or 1 when the parse result has none. Every entry that the ingestion of a
  feed hands to the store has a non-empty episode list: an entry with no resolvable episode
  set is never persisted.
\<close>

theorem entry_needs_episodes:
  "(add_cache_entry env c nm u parse_res tvid_prodid = Inr (Some row) \<longrightarrow>
      (\<exists>p. resolve_parse_result env c nm parse_res tvid_prodid = Inr (Some p)
          \<and> episode_numbers p \<noteq> [] \<and> row_episodes row = episode_text (episode_numbers p)
          \<and> row_season row \<noteq> 0
          \<and> (season_number p = None \<longrightarrow> row_season row = 1)
          \<and> (\<forall>n. season_number p = Some n \<and> n \<noteq> 0 \<longrightarrow> row_season row = n)))
   \<and> (parse_data env c items = Inr cl \<longrightarrow>
        (\<forall>r \<in> set cl. \<exists>eps. eps \<noteq> [] \<and> row_episodes r = episode_text eps \<and> row_season r \<noteq> 0))"
proof (intro conjI impI)
  assume "add_cache_entry env c nm u parse_res tvid_prodid = Inr (Some row)"
  then obtain p where p: "resolve_parse_result env c nm parse_res tvid_prodid = Inr (Some p)"
    and ce: "cache_entry (timestamp_near env) c nm u p = Some row"
    using add_cache_entry_Some by blast
  show "\<exists>p. resolve_parse_result env c nm parse_res tvid_prodid = Inr (Some p)
          \<and> episode_numbers p \<noteq> [] \<and> row_episodes row = episode_text (episode_numbers p)
          \<and> row_season row \<noteq> 0
          \<and> (season_number p = None \<longrightarrow> row_season row = 1)
          \<and> (\<forall>n. season_number p = Some n \<and> n \<noteq> 0 \<longrightarrow> row_season row = n)"
    using cache_entry_Some [OF ce] p by (intro exI [of _ p]) simp
next
  assume "parse_data env c items = Inr cl"
  then show "\<forall>r \<in> set cl. \<exists>eps. eps \<noteq> [] \<and> row_episodes r = episode_text eps \<and> row_season r \<noteq> 0"
    using parse_data_rows by blast
qed

lemma feed_two_parsed:
  "parse_data (feed_env a d f) the_cache [(''Show.Name.S01E02.720p'', ''u1''), (''garbage'', ''u2'')]
    = Inr [\<lparr>row_provider = ''prov'', row_name = ''Show.Name.S01E02.720p'', row_season = 1,
            row_episodes = ''|2|'', row_indexerid = 100, row_url = ''u1'', row_time = 9000,
            row_quality = 4, row_release_group = None, row_version = None, row_indexer = 1\<rparr>]"
  by (simp add: feed_env_def parse_item_def add_cache_entry_def resolve_parse_result_def
      truthy_str_def cache_entry_def translate_title_def the_cache_def parsed_s01e02_def
      the_show_def episode_text_def str_int_def str_nat.simps digit_char_def)

theorem entry_needs_episodes_witness:
  "add_cache_entry (feed_env None None None) the_cache ''Show.Name.E05'' ''u5'' None None
     = Inr (Some \<lparr>row_provider = ''prov'', row_name = ''Show.Name.E05'', row_season = 1,
                  row_episodes = ''|5|'', row_indexerid = 100, row_url = ''u5'', row_time = 9000,
                  row_quality = 4, row_release_group = None, row_version = None, row_indexer = 1\<rparr>)
   \<and> episode_numbers parsed_no_season = [5] \<and> episode_text [5] = ''|5|''
   \<and> parse_data (feed_env None None None) the_cache
        [(''Show.Name.S01E02.720p'', ''u1''), (''garbage'', ''u2'')]
       = Inr [\<lparr>row_provider = ''prov'', row_name = ''Show.Name.S01E02.720p'', row_season = 1,
            row_episodes = ''|2|'', row_indexerid = 100, row_url = ''u1'', row_time = 9000,
            row_quality = 4, row_release_group = None, row_version = None, row_indexer = 1\<rparr>]
   \<and> episode_text [2] = ''|2|''"
proof -
  have e: "episode_numbers parsed_no_season = [5]" "episode_text [5] = ''|5|''"
      "episode_text [2] = ''|2|''"
    by (simp_all add: parsed_no_season_def episode_text_def str_int_def str_nat.simps digit_char_def)
  note entry_needs_episodes [of "feed_env None None None" the_cache "''Show.Name.E05''" "''u5''"
      None None
      "\<lparr>row_provider = ''prov'', row_name = ''Show.Name.E05'', row_season = 1,
        row_episodes = ''|5|'', row_indexerid = 100, row_url = ''u5'', row_time = 9000,
        row_quality = 4, row_release_group = None, row_version = None, row_indexer = 1\<rparr>"
      "[(''Show.Name.S01E02.720p'', ''u1''), (''garbage'', ''u2'')]"]
  with no_season_entry feed_two_parsed [of None None None] e
  show ?thesis by blast
qed

subsection \<open>Stored episode lists read back\<close>

lemma below_ten: "d < (10::nat) \<Longrightarrow> d \<in> {0, 1, 2, 3, 4, 5, 6, 7, 8, 9}"
  by auto

lemma digit_char_props:
  assumes "d < 10"
  shows "is_digit (digit_char d)" and "of_char (digit_char d) - 48 = d"
    and "\<not> is_space (digit_char d)" and "digit_char d \<noteq> CHR ''|''"
    and "digit_char d \<noteq> CHR ''-''" and "digit_char d \<noteq> CHR ''+''"
  using below_ten [OF assms]
  by (auto simp: digit_char_def is_digit_def is_space_def)

lemma str_nat_chars: "str_nat n \<noteq> [] \<and> (\<forall>ch \<in> set (str_nat n). plain_digit ch)"
proof (induction n rule: str_nat.induct)
  case (1 n)
  show ?case
  proof (cases "n < 10")
    case True
    then show ?thesis
      using digit_char_props [OF True] by (subst (1 2) str_nat.simps) (simp add: plain_digit_def)
  next
    case False
    have m: "n mod 10 < 10" by simp
    from False 1 have "\<forall>ch \<in> set (str_nat (n div 10)). plain_digit ch" by simp
    then show ?thesis
      using False digit_char_props [OF m] by (subst (1 2) str_nat.simps) (simp add: plain_digit_def)
  qed
qed

lemma str_nat_value: "foldl digit_step 0 (str_nat n) = n"
proof (induction n rule: str_nat.induct)
  case (1 n)
  show ?case
  proof (cases "n < 10")
    case True
    then show ?thesis
      using digit_char_props [OF True] by (subst str_nat.simps) (simp add: digit_step_def)
  next
    case False
    have m: "n mod 10 < 10" by simp
    from False 1 have "foldl digit_step 0 (str_nat (n div 10)) = n div 10" by simp
    then show ?thesis
      using False digit_char_props [OF m] by (subst str_nat.simps) (simp add: digit_step_def)
  qed
qed

lemma digits_value_digits:
  "\<forall>ch \<in> set ds. is_digit ch \<Longrightarrow> digits_value ds acc = Some (foldl digit_step acc ds)"
  by (induction ds arbitrary: acc) (auto simp: digit_step_def)

lemma dropWhile_none: "\<forall>ch \<in> set s. \<not> P ch \<Longrightarrow> dropWhile P s = s"
  by (cases s) auto

lemma py_int_digits:
  assumes ne: "ds \<noteq> []" and pd: "\<forall>ch \<in> set ds. plain_digit ch"
  shows "py_int ds = Inr (int (foldl digit_step 0 ds))"
    and "py_int (CHR ''-'' # ds) = Inr (- int (foldl digit_step 0 ds))"
proof -
  obtain d rest where ds: "ds = d # rest" using ne by (cases ds) auto
  have dd: "is_digit d" "d \<noteq> CHR ''-''" "d \<noteq> CHR ''+''"
    using pd ds by (auto simp: plain_digit_def)
  have dr: "\<forall>ch \<in> set rest. is_digit ch" using pd ds by (auto simp: plain_digit_def)
  have ns: "\<forall>ch \<in> set ds. \<not> is_space ch" using pd by (auto simp: plain_digit_def)
  have ns2: "\<forall>ch \<in> set (CHR ''-'' # ds). \<not> is_space ch"
    using ns by (auto simp: is_space_def)
  have t1: "rev (dropWhile is_space (rev (dropWhile is_space ds))) = ds"
    using ns by (simp add: dropWhile_none)
  have t2: "rev (dropWhile is_space (rev (dropWhile is_space (CHR ''-'' # ds)))) = CHR ''-'' # ds"
    using ns2 by (simp only: dropWhile_none set_rev rev_rev_ident)
  have v: "digits_value rest (of_char d - 48) = Some (foldl digit_step 0 ds)"
    using digits_value_digits [OF dr] by (simp add: ds digit_step_def)
  show "py_int ds = Inr (int (foldl digit_step 0 ds))"
    unfolding py_int_def t1 using dd v by (simp add: ds)
  show "py_int (CHR ''-'' # ds) = Inr (- int (foldl digit_step 0 ds))"
    unfolding py_int_def t2 using dd v by (simp add: ds)
qed

lemma py_int_str_int: "py_int (str_int i) = Inr i"
proof (cases "i < 0")
  case True
  then show ?thesis
    using py_int_digits(2) [of "str_nat (nat (- i))"] str_nat_chars [of "nat (- i)"]
    by (simp add: str_int_def str_nat_value)
next
  case False
  then show ?thesis
    using py_int_digits(1) [of "str_nat (nat i)"] str_nat_chars [of "nat i"]
    by (simp add: str_int_def str_nat_value)
qed

lemma str_int_chars: "str_int i \<noteq> [] \<and> CHR ''|'' \<notin> set (str_int i)"
  using str_nat_chars [of "nat i"] str_nat_chars [of "nat (- i)"]
  by (auto simp: str_int_def plain_digit_def)

lemma split_chr_first:
  "sep \<notin> set xs \<Longrightarrow> split_chr sep (xs @ sep # ys) = xs # split_chr sep ys"
  by (induction xs) auto

lemma join_first:
  "\<exists>rest. join sep (x # xs) @ sep = x @ sep @ rest"
  by (cases xs) auto

lemma first_episode_of_text:
  assumes "row_episodes r = episode_text (e # es)"
  shows "first_episode r = Inr (str_int e)"
proof -
  obtain rest where j: "join ''|'' (map str_int (e # es)) @ ''|'' = str_int e @ ''|'' @ rest"
    using join_first [of "''|''" "str_int e" "map str_int es"] by auto
  have "split_chr CHR ''|'' (row_episodes r)
      = [] # split_chr CHR ''|'' (str_int e @ CHR ''|'' # rest)"
    using assms j by (simp add: episode_text_def)
  also have "\<dots> = [] # str_int e # split_chr CHR ''|'' rest"
    using str_int_chars [of e] by (simp add: split_chr_first)
  finally show ?thesis
    by (simp add: first_episode_def item_at_def)
qed

lemma process_row_well_formed:
  assumes "row_episodes r = episode_text eps" and "eps \<noteq> []"
  shows "\<not> isl (process_row env c m r)"
proof -
  obtain e es where "eps = e # es" using assms(2) by (cases eps) auto
  then have fe: "first_episode r = Inr (str_int e)"
    using assms(1) first_episode_of_text by simp
  show ?thesis
    using str_int_chars [of e]
    by (auto simp: process_row_def fe py_int_str_int Let_def split: option.splits prod.splits sum.splits)
qed

lemma query_rows_subset: "set (query_rows c eps db) \<subseteq> set (provider_cache db)"
  by (auto simp: query_rows_def select_needed_def)

lemma stored_rows_never_raise:
  assumes "\<forall>r \<in> set (provider_cache db). \<exists>eps. eps \<noteq> [] \<and> row_episodes r = episode_text eps"
  shows "list_all (\<lambda>r. \<not> isl (process_row env c m r)) (query_rows c eps db)"
  using assms query_rows_subset [of c eps db] process_row_well_formed
  unfolding list_all_iff by blast

lemma run_inserts_rows: "set (provider_cache (run_inserts conf cl db)) \<subseteq> set (provider_cache db) \<union> set cl"
proof (induction cl arbitrary: db)
  case Nil
  then show ?case by simp
next
  case (Cons r rs)
  have "set (provider_cache (insert_or_ignore conf r db)) \<subseteq> set (provider_cache db) \<union> {r}"
    by (auto simp: insert_or_ignore_def)
  with Cons.IH [of "insert_or_ignore conf r db"] show ?case by auto
qed

lemma update_cache_rows:
  assumes old: "\<forall>r \<in> set (provider_cache db). \<exists>eps. eps \<noteq> [] \<and> row_episodes r = episode_text eps"
  shows "\<forall>r \<in> set (provider_cache (snd (update_cache env c db))).
           \<exists>eps. eps \<noteq> [] \<and> row_episodes r = episode_text eps"
proof -
  let ?items = "case cache_data env of None \<Rightarrow> [] | Some xs \<Rightarrow> xs"
  let ?wf = "\<lambda>r. \<exists>eps. eps \<noteq> [] \<and> row_episodes r = episode_text eps"
  have cc: "\<forall>r \<in> set (provider_cache (clear_cache ts c db)). ?wf r" for ts
    using old by (simp add: clear_cache_def)
  have ma: "\<forall>r \<in> set (provider_cache (snd (mass_action_insert conf fault cl d))). ?wf r"
    if "\<forall>r \<in> set (provider_cache d). ?wf r" and "\<forall>r \<in> set cl. ?wf r" for conf fault cl d
  proof (cases fault)
    case None
    then show ?thesis
      using that run_inserts_rows [of conf cl d] by (auto simp: mass_action_insert_def)
  next
    case (Some k)
    have "set (take k cl) \<subseteq> set cl"
      by (rule set_take_subset)
    with Some show ?thesis
      using that run_inserts_rows [of conf "take k cl" d]
      by (simp add: mass_action_insert_def) blast
  qed
  show ?thesis
  proof (cases "parse_data env c ?items")
    case (Inl e)
    then show ?thesis
      using old cc by (auto simp: update_cache_def Let_def split: option.splits)
  next
    case (Inr cl)
    have wfcl: "\<forall>r \<in> set cl. ?wf r"
      using parse_data_rows [OF Inr] by blast
    let ?db1 = "if ?items \<noteq> [] then clear_cache (timestamp_near env) c db else db"
    have d1: "\<forall>r \<in> set (provider_cache ?db1). ?wf r"
      using old cc by simp
    have "\<forall>r \<in> set (provider_cache
              (snd (mass_action_insert (conflicts env) (insert_fault env) cl ?db1))). ?wf r"
      using ma [OF d1 wfcl] .
    then show ?thesis
      using old d1 Inr
      by (auto simp: update_cache_def Let_def set_last_update_stamp split: option.splits)
  qed
qed

lemma row_2_3_text: "row_episodes row_2_3 = episode_text [2, 3]"
  by (simp add: row_2_3_def episode_text_def str_int_def str_nat.simps digit_char_def)

lemma db_2_3_stored:
  "\<forall>r \<in> set (provider_cache db_2_3). \<exists>eps. eps \<noteq> [] \<and> row_episodes r = episode_text eps"
proof -
  have "row_episodes row_2_3 = episode_text [2, 3]"
    by (rule row_2_3_text)
  then have "\<exists>eps. eps \<noteq> [] \<and> row_episodes row_2_3 = episode_text eps"
    by blast
  then show ?thesis by (simp add: db_2_3_def)
qed

section \<open>Searching the cache\<close>

lemma match_rows_returns:
  "list_all (\<lambda>r. \<not> isl (process_row env c m r)) rows \<Longrightarrow> \<not> isl (match_rows env c m rows acc)"
proof (induction rows arbitrary: acc)
  case Nil
  then show ?case by simp
next
  case (Cons r rs)
  then obtain v where v: "process_row env c m r = Inr v"
    by (cases "process_row env c m r") auto
  from Cons have "\<And>acc. \<not> isl (match_rows env c m rs acc)" by simp
  then show ?case
    by (cases v) (auto simp: v)
qed

lemma set_last_search_stamp:
  "writes (set_last_search None now c db) = writes db @ [UpsertLastSearch (providerID c) (mktime now)]
   \<and> lastSearch (set_last_search None now c db) (providerID c) = Some (mktime now)
   \<and> provider_cache (set_last_search None now c db) = provider_cache db
   \<and> lastUpdate (set_last_search None now c db) = lastUpdate db"
  by (simp add: set_last_search_def)

lemma find_needed_returns:
  assumes "\<not> isl (fst (find_needed_episodes env c arg m db))"
  shows "snd (find_needed_episodes env c arg m db) = set_last_search None (now_set_last_search env) c db"
  using assms
  by (auto simp: find_needed_episodes_def Let_def split: if_splits sum.splits)

text \<open>
  C7. \<^verbatim>\<open>find_needed_episodes\<close> returns whenever the store answers and no row raises while
  it is processed, which is so for every store that holds only entries written by
  \<^verbatim>\<open>add_cache_entry\<close>; with no matching row it returns the empty mapping. Every call that
  returns has written \<^verbatim>\<open>lastSearch\<close> exactly once, with the current time, and has written
  nothing else.
\<close>

theorem search_always_stamped:
  "(\<not> select_fault env
      \<and> list_all (\<lambda>r. \<not> isl (process_row env c m r)) (query_rows c (ep_list arg) db)
      \<longrightarrow> \<not> isl (fst (find_needed_episodes env c arg m db)))
   \<and> (\<not> select_fault env
      \<and> (\<forall>r \<in> set (provider_cache db). \<exists>eps. eps \<noteq> [] \<and> row_episodes r = episode_text eps)
      \<longrightarrow> \<not> isl (fst (find_needed_episodes env c arg m db)))
   \<and> (\<not> select_fault env \<and> query_rows c (ep_list arg) db = []
      \<longrightarrow> fst (find_needed_episodes env c arg m db) = Inr [])
   \<and> (\<not> isl (fst (find_needed_episodes env c arg m db)) \<longrightarrow>
        writes (snd (find_needed_episodes env c arg m db))
          = writes db @ [UpsertLastSearch (providerID c) (mktime (now_set_last_search env))]
      \<and> lastSearch (snd (find_needed_episodes env c arg m db)) (providerID c)
          = Some (mktime (now_set_last_search env))
      \<and> provider_cache (snd (find_needed_episodes env c arg m db)) = provider_cache db
      \<and> lastUpdate (snd (find_needed_episodes env c arg m db)) = lastUpdate db)"
proof -
  let ?rows = "query_rows c (ep_list arg) db"
  let ?res = "find_needed_episodes env c arg m db"
  have ok: "\<not> isl (fst ?res)"
    if "\<not> select_fault env" and "list_all (\<lambda>r. \<not> isl (process_row env c m r)) ?rows"
  proof -
    have "\<not> isl (match_rows env c m ?rows [])"
      using that(2) match_rows_returns by blast
    then show ?thesis
      using that(1) by (auto simp: find_needed_episodes_def Let_def split: sum.splits)
  qed
  have one: "\<not> select_fault env \<and> list_all (\<lambda>r. \<not> isl (process_row env c m r)) ?rows
      \<longrightarrow> \<not> isl (fst ?res)"
    using ok by blast
  have two: "\<not> select_fault env
      \<and> (\<forall>r \<in> set (provider_cache db). \<exists>eps. eps \<noteq> [] \<and> row_episodes r = episode_text eps)
      \<longrightarrow> \<not> isl (fst ?res)"
    using ok stored_rows_never_raise by blast
  have three: "\<not> select_fault env \<and> ?rows = [] \<longrightarrow> fst ?res = Inr []"
    by (simp add: find_needed_episodes_def)
  have four: "\<not> isl (fst ?res) \<longrightarrow>
        writes (snd ?res) = writes db @ [UpsertLastSearch (providerID c) (mktime (now_set_last_search env))]
      \<and> lastSearch (snd ?res) (providerID c) = Some (mktime (now_set_last_search env))
      \<and> provider_cache (snd ?res) = provider_cache db
      \<and> lastUpdate (snd ?res) = lastUpdate db"
    using find_needed_returns [of env c arg m db] by (simp add: set_last_search_stamp)
  from one two three four show ?thesis by blast
qed

lemma select_2_3:
  "select_needed the_cache (episode_of the_show 1 2) db_2_3 = [row_2_3]"
  "select_needed the_cache (episode_of the_show 1 3) db_2_3 = [row_2_3]"
  "select_needed the_cache (episode_of the_show 1 7) db_2_3 = []"
  by (simp_all add: select_needed_def the_cache_def episode_of_def the_show_def db_2_3_def
      row_2_3_def str_int_def str_nat.simps digit_char_def)

lemma process_row_2_3:
  "process_row plain_match_env the_cache False row_2_3 = Inr (Some (episode_of the_show 1 2, found_2_3))"
  by (simp add: process_row_def plain_match_env_def the_cache_def row_2_3_def the_show_def
      first_episode_def item_at_def py_int_def is_space_def is_digit_def blank_result_def
      found_2_3_def Let_def)

theorem search_always_stamped_witness:
  "\<not> select_fault plain_match_env
   \<and> provider_cache db_2_3 = [row_2_3] \<and> row_episodes row_2_3 = episode_text [2, 3]
   \<and> query_rows the_cache (ep_list (One (episode_of the_show 1 7))) db_2_3 = []
   \<and> fst (find_needed_episodes plain_match_env the_cache (One (episode_of the_show 1 7)) False db_2_3)
       = Inr []
   \<and> writes (snd (find_needed_episodes plain_match_env the_cache (One (episode_of the_show 1 7)) False db_2_3))
       = [UpsertLastSearch ''prov'' 5000]
   \<and> list_all (\<lambda>r. \<not> isl (process_row plain_match_env the_cache False r))
        (query_rows the_cache (ep_list (One (episode_of the_show 1 2))) db_2_3)
   \<and> query_rows the_cache (ep_list (One (episode_of the_show 1 2))) db_2_3 = [row_2_3]
   \<and> \<not> isl (fst (find_needed_episodes plain_match_env the_cache (One (episode_of the_show 1 2)) False db_2_3))
   \<and> writes (snd (find_needed_episodes plain_match_env the_cache (One (episode_of the_show 1 2)) False db_2_3))
       = [UpsertLastSearch ''prov'' 5000]"
proof -
  have nf: "\<not> select_fault plain_match_env"
    by (simp add: plain_match_env_def)
  have q7: "query_rows the_cache (ep_list (One (episode_of the_show 1 7))) db_2_3 = []"
    by (simp add: query_rows_def ep_list_def select_2_3)
  have q2: "query_rows the_cache (ep_list (One (episode_of the_show 1 2))) db_2_3 = [row_2_3]"
    by (simp add: query_rows_def ep_list_def select_2_3)
  have ok: "list_all (\<lambda>r. \<not> isl (process_row plain_match_env the_cache False r))
        (query_rows the_cache (ep_list (One (episode_of the_show 1 2))) db_2_3)"
    by (simp add: q2 process_row_2_3)
  have v: "writes db_2_3 = []" "providerID the_cache = ''prov''"
      "mktime (now_set_last_search plain_match_env) = 5000"
    by (simp_all add: db_2_3_def the_cache_def plain_match_env_def mktime_def)
  from search_always_stamped [of plain_match_env the_cache False "One (episode_of the_show 1 7)" db_2_3]
    search_always_stamped [of plain_match_env the_cache False "One (episode_of the_show 1 2)" db_2_3]
    nf q7 q2 ok v db_2_3_stored row_2_3_text
  show ?thesis by (simp add: db_2_3_def)
qed

lemma results_for_dict_add:
  "results_for (dict_add d k v) k' = results_for d k' @ (if k' = k then [v] else [])"
  by (induction d) (auto simp: results_for_def)

lemma count_dict_add:
  "sum_list (map (\<lambda>kv. length (snd kv)) (dict_add d k v)) = Suc (sum_list (map (\<lambda>kv. length (snd kv)) d))"
  by (induction d) auto

lemma accepted_Cons:
  "accepted env c m (r # rs) =
     (case process_row env c m r of Inr (Some kv) \<Rightarrow> [kv] | _ \<Rightarrow> []) @ accepted env c m rs"
  by (simp add: accepted_def)

lemma match_rows_groups:
  "match_rows env c m rows acc = Inr needed_eps \<Longrightarrow>
     (\<forall>k. results_for needed_eps k
            = results_for acc k @ map snd (filter (\<lambda>kv. fst kv = k) (accepted env c m rows)))
   \<and> sum_list (map (\<lambda>kv. length (snd kv)) needed_eps)
       = sum_list (map (\<lambda>kv. length (snd kv)) acc) + length (accepted env c m rows)"
proof (induction rows arbitrary: acc)
  case Nil
  then show ?case by (simp add: accepted_def)
next
  case (Cons r rs)
  show ?case
  proof (cases "process_row env c m r")
    case (Inl e)
    with Cons.prems show ?thesis by simp
  next
    case (Inr v)
    show ?thesis
    proof (cases v)
      case None
      with Inr Cons.prems have "match_rows env c m rs acc = Inr needed_eps" by simp
      from Cons.IH [OF this] show ?thesis
        by (simp add: accepted_Cons Inr None)
    next
      case (Some kv)
      obtain k res where kv: "kv = (k, res)" by (cases kv)
      with Inr Some Cons.prems
      have "match_rows env c m rs (dict_add acc k res) = Inr needed_eps" by simp
      from Cons.IH [OF this] show ?thesis
        by (simp add: accepted_Cons Inr Some kv results_for_dict_add count_dict_add)
    qed
  qed
qed

lemma process_row_key:
  assumes "process_row env c m r = Inr (Some (k, res))"
  shows "\<exists>show tok n. find_show_by_ids env (row_indexer r) (row_indexerid r) = Some show
           \<and> first_episode r = Inr tok \<and> py_int tok = Inr n
           \<and> k = get_episode env show (row_season r) n"
  using assms
  by (auto simp: process_row_def Let_def split: option.splits if_splits sum.splits prod.splits)

lemma find_needed_2:
  "find_needed_episodes plain_match_env the_cache (One (episode_of the_show 1 2)) False db_2_3
     = (Inr [(episode_of the_show 1 2, [found_2_3])],
        set_last_search None (now_set_last_search plain_match_env) the_cache db_2_3)"
  by (simp add: find_needed_episodes_def query_rows_def ep_list_def select_2_3 process_row_2_3)
    (simp add: plain_match_env_def)

lemma find_needed_3:
  "find_needed_episodes plain_match_env the_cache (One (episode_of the_show 1 3)) False db_2_3
     = (Inr [(episode_of the_show 1 2, [found_2_3])],
        set_last_search None (now_set_last_search plain_match_env) the_cache db_2_3)"
  by (simp add: find_needed_episodes_def query_rows_def ep_list_def select_2_3 process_row_2_3)
    (simp add: plain_match_env_def)

lemma episodes_differ: "episode_of the_show 1 3 \<noteq> episode_of the_show 1 2"
  by (simp add: episode_of_def)

text \<open>
  C8, as it is written, fails for a stored entry with several episodes: the unit that wants
  season 1 episode 3 selects the entry for episodes 2 and 3, and the result is stored under
  the episode object of episode 2, nothing under the unit.
\<close>

theorem result_keyed_by_other_episode:
  "query_rows the_cache (ep_list (One (episode_of the_show 1 3))) db_2_3 = [row_2_3]
   \<and> fst (find_needed_episodes plain_match_env the_cache (One (episode_of the_show 1 3)) False db_2_3)
       = Inr [(episode_of the_show 1 2, [found_2_3])]
   \<and> episode_of the_show 1 3 \<noteq> episode_of the_show 1 2
   \<and> results_for [(episode_of the_show 1 2, [found_2_3])] (episode_of the_show 1 3) = []"
  by (simp add: find_needed_3 query_rows_def ep_list_def select_2_3 episodes_differ
      episodes_differ [THEN not_sym] results_for_def)

text \<open>
  C8, amended. In \<^verbatim>\<open>find_needed_episodes\<close> every row of the query results that passes the
  checks yields exactly one result, stored under the episode object that
  \<^verbatim>\<open>show_obj.get_episode\<close> gives for the season of the row and the first episode number
  stored in it: under each key the mapping holds the results of the rows with that key, in
  order, and it holds as many results as there are accepted rows. So a unit that wants
  season 1 episode 2 with quality Q, and a stored entry for season 1, episodes 2 and 3,
  quality Q, give exactly one result under that unit.
\<close>

theorem results_grouped_by_first_episode:
  assumes "find_needed_episodes env c arg m db = (Inr needed_eps, db')"
  shows "(\<forall>k. results_for needed_eps k
            = map snd (filter (\<lambda>kv. fst kv = k) (accepted env c m (query_rows c (ep_list arg) db))))
     \<and> sum_list (map (\<lambda>kv. length (snd kv)) needed_eps)
         = length (accepted env c m (query_rows c (ep_list arg) db))
     \<and> (\<forall>r k res. process_row env c m r = Inr (Some (k, res)) \<longrightarrow>
          (\<exists>show tok n. find_show_by_ids env (row_indexer r) (row_indexerid r) = Some show
             \<and> first_episode r = Inr tok \<and> py_int tok = Inr n
             \<and> k = get_episode env show (row_season r) n))"
proof -
  let ?rows = "query_rows c (ep_list arg) db"
  have a: "(\<forall>k. results_for needed_eps k = map snd (filter (\<lambda>kv. fst kv = k) (accepted env c m ?rows)))
     \<and> sum_list (map (\<lambda>kv. length (snd kv)) needed_eps) = length (accepted env c m ?rows)"
  proof (cases "?rows = []")
    case True
    with assms have "needed_eps = []"
      by (auto simp: find_needed_episodes_def split: if_splits)
    with True show ?thesis
      by (simp add: accepted_def results_for_def)
  next
    case False
    with assms have "match_rows env c m ?rows [] = Inr needed_eps"
      by (auto simp: find_needed_episodes_def Let_def split: if_splits sum.splits)
    from match_rows_groups [OF this] show ?thesis
      by (simp add: results_for_def)
  qed
  show ?thesis
    using a process_row_key by blast
qed

theorem results_grouped_by_first_episode_witness:
  "find_needed_episodes plain_match_env the_cache (One (episode_of the_show 1 2)) False db_2_3
     = (Inr [(episode_of the_show 1 2, [found_2_3])],
        set_last_search None (now_set_last_search plain_match_env) the_cache db_2_3)
   \<and> ep_season (episode_of the_show 1 2) = 1 \<and> ep_episode (episode_of the_show 1 2) = 2
   \<and> wanted_quality (episode_of the_show 1 2) = [4]
   \<and> row_season row_2_3 = 1 \<and> row_episodes row_2_3 = ''|2|3|'' \<and> row_quality row_2_3 = 4
   \<and> provider_cache db_2_3 = [row_2_3]
   \<and> accepted plain_match_env the_cache False
        (query_rows the_cache (ep_list (One (episode_of the_show 1 2))) db_2_3)
       = [(episode_of the_show 1 2, found_2_3)]
   \<and> length (results_for [(episode_of the_show 1 2, [found_2_3])] (episode_of the_show 1 2)) = 1"
proof -
  have q: "query_rows the_cache (ep_list (One (episode_of the_show 1 2))) db_2_3 = [row_2_3]"
    by (simp add: query_rows_def ep_list_def select_2_3)
  have acc: "accepted plain_match_env the_cache False [row_2_3] = [(episode_of the_show 1 2, found_2_3)]"
    by (simp add: accepted_def process_row_2_3)
  have f: "ep_season (episode_of the_show 1 2) = 1" "ep_episode (episode_of the_show 1 2) = 2"
      "wanted_quality (episode_of the_show 1 2) = [4]"
      "row_season row_2_3 = 1" "row_episodes row_2_3 = ''|2|3|''" "row_quality row_2_3 = 4"
      "provider_cache db_2_3 = [row_2_3]"
    by (simp_all add: episode_of_def row_2_3_def db_2_3_def)
  from results_grouped_by_first_episode [OF find_needed_2] find_needed_2 q acc f
  show ?thesis by simp
qed

lemma dict_get_missing: "k \<notin> fst ` set d \<Longrightarrow> dict_get d k = Inl KeyError"
  by (induction d) auto

text \<open>
  C10. \<^verbatim>\<open>search_cache\<close> raises \<^verbatim>\<open>KeyError\<close> whenever \<^verbatim>\<open>find_needed_episodes\<close> returns a
  mapping that is not empty and has no key equal to the episode asked for, and there is
  such an input.
\<close>

theorem search_cache_key_error:
  "(\<exists>env c ep m db. fst (search_cache env c ep m db) = Inl KeyError)
   \<and> (find_needed_episodes env c (One ep) m db = (Inr needed_eps, db')
        \<and> needed_eps \<noteq> [] \<and> ep \<notin> fst ` set needed_eps
      \<longrightarrow> search_cache env c ep m db = (Inl KeyError, db'))"
proof
  have "fst (search_cache plain_match_env the_cache (episode_of the_show 1 3) False db_2_3) = Inl KeyError"
    using episodes_differ by (simp add: search_cache_def find_needed_3)
  then show "\<exists>env c ep m db. fst (search_cache env c ep m db) = Inl KeyError"
    by blast
next
  show "find_needed_episodes env c (One ep) m db = (Inr needed_eps, db')
        \<and> needed_eps \<noteq> [] \<and> ep \<notin> fst ` set needed_eps
      \<longrightarrow> search_cache env c ep m db = (Inl KeyError, db')"
    by (simp add: search_cache_def dict_get_missing)
qed

theorem search_cache_key_error_witness:
  "find_needed_episodes plain_match_env the_cache (One (episode_of the_show 1 3)) False db_2_3
     = (Inr [(episode_of the_show 1 2, [found_2_3])],
        set_last_search None (now_set_last_search plain_match_env) the_cache db_2_3)
   \<and> [(episode_of the_show 1 2, [found_2_3])] \<noteq> []
   \<and> episode_of the_show 1 3 \<notin> fst ` set [(episode_of the_show 1 2, [found_2_3])]
   \<and> search_cache plain_match_env the_cache (episode_of the_show 1 3) False db_2_3
       = (Inl KeyError, set_last_search None (now_set_last_search plain_match_env) the_cache db_2_3)"
proof -
  have nk: "episode_of the_show 1 3 \<notin> fst ` set [(episode_of the_show 1 2, [found_2_3])]"
    using episodes_differ by simp
  from search_cache_key_error [of plain_match_env the_cache "episode_of the_show 1 3" False db_2_3
      "[(episode_of the_show 1 2, [found_2_3])]"
      "set_last_search None (now_set_last_search plain_match_env) the_cache db_2_3"]
    find_needed_3 nk
  show ?thesis by simp
qed

end
